theory Spec2Isabelle
  imports Complex_Main
begin

section \<open>Values of the Go runtime used by the manager\<close>

subsection \<open>Decimal digits and \<open>%05d\<close>\<close>

text \<open>
  Numbers are kept as \<open>int\<close>, whose numerals are binary. \<open>itoa n\<close> is the decimal
  numeral of \<open>n \<ge> 0\<close>, most significant digit first.
\<close>

definition digit_char :: "int \<Rightarrow> char" where
  "digit_char d = ''0123456789'' ! nat d"

function itoa :: "int \<Rightarrow> string" where
  "itoa n = (if n < 10 then [digit_char n] else itoa (n div 10) @ [digit_char (n mod 10)])"
  by pat_completeness auto
termination
  by (relation "measure nat") auto

declare itoa.simps [simp del]

definition zero_pad :: "nat \<Rightarrow> string \<Rightarrow> string" where
  "zero_pad w s = replicate (w - length s) (CHR ''0'') @ s"

text \<open>
  The verb \<open>%05d\<close> of package fmt: the width 5 counts the sign, and the zeros go between
  the sign and the digits. A number with more digits than the width is printed in full.
\<close>

definition fmt_05d :: "int \<Rightarrow> string" where
  "fmt_05d i = (if i < 0 then ''-'' @ zero_pad 4 (itoa (- i))
                else zero_pad 5 (itoa i))"

text \<open>
  \<open>fmt.Sprintf(format, index)\<close> with one integer argument, for a format whose only verb
  is \<open>%05d\<close> (the manager's \<open>segmentSuffix\<close>): the text before the verb, the padded
  number, the text after it.
\<close>

fun Sprintf_d :: "string \<Rightarrow> int \<Rightarrow> string" where
  "Sprintf_d [] i = []"
| "Sprintf_d (c # cs) i =
     (if c = CHR ''%'' \<and> take 3 cs = ''05d'' then fmt_05d i @ drop 3 cs
      else c # Sprintf_d cs i)"

subsection \<open>float64\<close>

text \<open>
  A float64 is a finite number (the rational it denotes; \<open>Fin 0\<close> is \<open>+0\<close>), the
  negative zero, an infinity or NaN.
\<close>

datatype float64 = Fin rat | NegZero | PosInf | NegInf | NaN

definition pow2 :: "int \<Rightarrow> rat" where
  "pow2 e = (if 0 \<le> e then 2 ^ nat e else 1 / 2 ^ nat (- e))"

text \<open>The number of binary digits of a positive integer.\<close>

function bit_length :: "int \<Rightarrow> int" where
  "bit_length n = (if n \<le> 0 then 0 else bit_length (n div 2) + 1)"
  by pat_completeness auto
termination
  by (relation "measure nat") auto

declare bit_length.simps [simp del]

text \<open>\<open>ilog2 q\<close> is the binary exponent of a positive rational: \<open>2^e \<le> q < 2^(e+1)\<close>.\<close>

definition ilog2 :: "rat \<Rightarrow> int" where
  "ilog2 q = (case quotient_of q of (a, b) \<Rightarrow>
     (let k = bit_length a - bit_length b
      in if pow2 k \<le> q then k else k - 1))"

definition round_half_even :: "rat \<Rightarrow> int" where
  "round_half_even q =
     (let f = \<lfloor>q\<rfloor>; r = q - of_int f
      in if r < 1 / 2 then f else if 1 / 2 < r then f + 1
         else if even f then f else f + 1)"

text \<open>
  Rounding of an exact result to binary64, to nearest, ties to even: 53 significant bits,
  the least exponent of a unit in the last place is \<open>-1074\<close> (subnormal numbers), and a
  rounded magnitude of \<open>2^1024\<close> or more is an infinity.
\<close>

definition round64 :: "rat \<Rightarrow> float64" where
  "round64 q =
     (if q = 0 then Fin 0
      else let e = max (ilog2 \<bar>q\<bar> - 52) (- 1074);
               m = round_half_even (\<bar>q\<bar> / pow2 e);
               v = of_int m * pow2 e
           in if pow2 1024 \<le> v then (if q < 0 then NegInf else PosInf)
              else if m = 0 then (if q < 0 then NegZero else Fin 0)
              else Fin (if q < 0 then - v else v))"

text \<open>The Go expression \<open>a - b\<close> on float64 operands.\<close>

fun fsub :: "float64 \<Rightarrow> float64 \<Rightarrow> float64" where
  "fsub NaN _ = NaN"
| "fsub _ NaN = NaN"
| "fsub PosInf PosInf = NaN"
| "fsub NegInf NegInf = NaN"
| "fsub PosInf _ = PosInf"
| "fsub NegInf _ = NegInf"
| "fsub _ PosInf = NegInf"
| "fsub _ NegInf = PosInf"
| "fsub NegZero NegZero = Fin 0"
| "fsub NegZero (Fin b) = (if b = 0 then NegZero else round64 (- b))"
| "fsub (Fin a) NegZero = round64 a"
| "fsub (Fin a) (Fin b) = round64 (a - b)"

text \<open>
  The verbs \<open>%.2f\<close> and \<open>%.3f\<close>: the decimal expansion with \<open>p\<close> digits after the
  point, correctly rounded from the exact value (ties to even), the sign first.
\<close>

definition fmt_fixed :: "nat \<Rightarrow> int \<Rightarrow> string" where
  "fmt_fixed p n = itoa (n div 10 ^ p) @
     (if p = 0 then [] else ''.'' @ zero_pad p (itoa (n mod 10 ^ p)))"

fun fmt_f :: "nat \<Rightarrow> float64 \<Rightarrow> string" where
  "fmt_f p (Fin q) = (if q < 0 then ''-'' else []) @
     fmt_fixed p (round_half_even (\<bar>q\<bar> * 10 ^ p))"
| "fmt_f p NegZero = ''-'' @ fmt_fixed p 0"
| "fmt_f p PosInf = ''+Inf''"
| "fmt_f p NegInf = ''-Inf''"
| "fmt_f p NaN = ''NaN''"

subsection \<open>\<open>strings.Join\<close>\<close>

fun Join :: "string list \<Rightarrow> string \<Rightarrow> string" where
  "Join [] sep = []"
| "Join [x] sep = x"
| "Join (x # y # ys) sep = x @ sep @ Join (y # ys) sep"

section \<open>The manager\<close>

text \<open>
  \<open>Config\<close> and \<open>ProbeMediaData\<close> are declared outside \<open>manager.go\<close>; the records hold
  the fields that \<open>manager.go\<close> reads and writes. A nil slice is \<open>None\<close>.
\<close>

record Config =
  MediaPath :: string
  FFprobeBinary :: string
  TranscodeDir :: string
  SegmentPrefix :: string
  Cache :: bool
  CacheDir :: string

record ProbeVideoData =
  PktPtsTime :: "float64 list option"

record ProbeMediaData =
  Video :: "ProbeVideoData option"

text \<open>A channel of \<open>struct{}\<close> that is only ever closed: nil is \<open>None\<close>.\<close>

datatype chan = Open | Closed

text \<open>
  The fields of \<open>ManagerCtx\<close>. The logger, the mutex and the three event callbacks (set,
  never called) carry no state that the operations below read. \<open>cancelled\<close> is the state
  of the context \<open>ctx\<close> that \<open>cancel\<close> cancels. A nil map reads like the empty map, and a
  nil slice has length 0.
\<close>

record ManagerCtx =
  config :: Config
  segmentDuration :: float64
  segmentSuffix :: string
  ready :: bool
  onReadyChange :: "chan option"
  metadata :: "ProbeMediaData option"
  playlist :: string
  segments :: "int \<rightharpoonup> bool"
  segmentsTimes :: "float64 list"
  shutdown :: "chan option"
  cancelled :: bool

definition New :: "Config \<Rightarrow> ManagerCtx" where
  "New c = \<lparr> config = c,
             segmentDuration = Fin (19 / 4),
             segmentSuffix = ''-%05d.ts'',
             ready = False,
             onReadyChange = None,
             metadata = None,
             playlist = [],
             segments = Map.empty,
             segmentsTimes = [],
             shutdown = None,
             cancelled = False \<rparr>"

definition getSegmentName :: "ManagerCtx \<Rightarrow> int \<Rightarrow> string" where
  "getSegmentName m index = SegmentPrefix (config m) @ Sprintf_d (segmentSuffix m) index"

text \<open>
  The loop of \<open>getPlaylist\<close>, \<open>for i := 1; i < len(m.segmentsTimes); i++\<close>, from the
  value \<open>i\<close> of its counter and the lines appended so far. The counter starts at 1, so
  both reads of \<open>segmentsTimes\<close> are in range.
\<close>

function playlist_loop :: "ManagerCtx \<Rightarrow> nat \<Rightarrow> string list \<Rightarrow> string list" where
  "playlist_loop m i lines =
     (if i < length (segmentsTimes m)
      then playlist_loop m (i + 1)
             (lines @ [''#EXTINF:'' @ fmt_f 3 (fsub (segmentsTimes m ! i) (segmentsTimes m ! (i - 1)))
                         @ '', no desc'',
                       getSegmentName m (int i)])
      else lines)"
  by pat_completeness auto
termination
  by (relation "measure (\<lambda>(m, i, lines). length (segmentsTimes m) - i)") auto

declare playlist_loop.simps [simp del]

definition getPlaylist_lines :: "ManagerCtx \<Rightarrow> string list" where
  "getPlaylist_lines m =
     playlist_loop m 1
       [''#EXTM3U'',
        ''#EXT-X-VERSION:4'',
        ''#EXT-X-PLAYLIST-TYPE:VOD'',
        ''#EXT-X-MEDIA-SEQUENCE:0'',
        ''#EXT-X-TARGETDURATION:'' @ fmt_f 2 (segmentDuration m)]
     @ [''#EXT-X-ENDLIST'']"

definition getPlaylist :: "ManagerCtx \<Rightarrow> string" where
  "getPlaylist m = Join (getPlaylist_lines m) [CHR 0x0A]"

subsection \<open>Errors, panics and the collaborators of the manager\<close>

text \<open>
  A Go error: its text, and whether \<open>errors.Is(err, os.ErrNotExist)\<close> holds of it.
\<close>

datatype error = Error (is_not_exist: bool) (message: string)

text \<open>\<open>fmt.Errorf(prefix + "%v", err)\<close>: a new error that does not wrap \<open>err\<close>.\<close>

definition Errorf_v :: "string \<Rightarrow> error \<Rightarrow> error" where
  "Errorf_v pre e = Error False (pre @ message e)"

text \<open>
  The functions that \<open>manager.go\<close> calls and that are declared elsewhere: the two probes,
  the three cache methods of the manager, the JSON codec of \<open>ProbeMediaData\<close>, and from
  the standard library \<open>path.Join\<close> and \<open>os.Stat\<close>. They are parameters of the model.
  The probes take the cancellation state of \<open>m.ctx\<close>, the binary and the media path, a
  successful \<open>ProbeMedia\<close> returns a non-nil pointer, and the cache methods read the
  manager without changing it. \<open>Unmarshal data old\<close> is \<open>json.Unmarshal(data, &m.metadata)\<close>:
  the error, and the value that \<open>m.metadata\<close> holds afterwards.
\<close>

record Env =
  ProbeMedia :: "bool \<Rightarrow> string \<Rightarrow> string \<Rightarrow> error + ProbeMediaData"
  ProbeVideo :: "bool \<Rightarrow> string \<Rightarrow> string \<Rightarrow> error + ProbeVideoData"
  getCacheData :: "ManagerCtx \<Rightarrow> error + string"
  saveGlobalCacheData :: "ManagerCtx \<Rightarrow> string \<Rightarrow> error option"
  saveLocalCacheData :: "ManagerCtx \<Rightarrow> string \<Rightarrow> error option"
  Unmarshal :: "string \<Rightarrow> ProbeMediaData option \<Rightarrow> error option \<times> ProbeMediaData option"
  Marshal :: "ProbeMediaData option \<Rightarrow> error + string"
  path_Join :: "string \<Rightarrow> string \<Rightarrow> string"
  os_Stat :: "string \<Rightarrow> error option"

text \<open>
  What a call does besides returning: the log lines it writes (\<open>Log\<close>...) and the calls
  it makes of the collaborators and of the operating system (\<open>Call\<close>...).
\<close>

datatype effect =
    LogInfo string
  | LogErr string
  | LogWarn string
  | CallProbeMedia
  | CallProbeVideo
  | CallGetCacheData
  | CallSaveGlobalCacheData string
  | CallSaveLocalCacheData string
  | CallStat string
  | CallServeFile string

subsection \<open>Metadata\<close>

definition fetchMetadata :: "Env \<Rightarrow> ManagerCtx \<Rightarrow> error option \<times> ManagerCtx \<times> effect list" where
  "fetchMetadata env m =
     (case ProbeMedia env (cancelled m) (FFprobeBinary (config m)) (MediaPath (config m)) of
        Inl err \<Rightarrow>
          (Some (Errorf_v ''unable probe media for metadata: '' err), m,
           [LogInfo ''fetching metadata'', CallProbeMedia])
      | Inr md \<Rightarrow>
          (case Video md of
             Some v \<Rightarrow>
               (if PktPtsTime v = None
                then (case ProbeVideo env (cancelled m) (FFprobeBinary (config m))
                             (MediaPath (config m)) of
                        Inl err \<Rightarrow>
                          (Some (Errorf_v ''unable probe video for keyframes: '' err), m,
                           [LogInfo ''fetching metadata'', CallProbeMedia, CallProbeVideo])
                      | Inr videoData \<Rightarrow>
                          (None,
                           m\<lparr>metadata :=
                               Some (md\<lparr>Video := Some (v\<lparr>PktPtsTime := PktPtsTime videoData\<rparr>)\<rparr>)\<rparr>,
                           [LogInfo ''fetching metadata'', CallProbeMedia, CallProbeVideo,
                            LogInfo ''fetched metadata'']))
                else (None, m\<lparr>metadata := Some md\<rparr>,
                      [LogInfo ''fetching metadata'', CallProbeMedia, LogInfo ''fetched metadata'']))
           | None \<Rightarrow>
               (None, m\<lparr>metadata := Some md\<rparr>,
                [LogInfo ''fetching metadata'', CallProbeMedia, LogInfo ''fetched metadata''])))"

text \<open>
  The second half of \<open>loadMetadata\<close>, from \<open>// fetch fresh metadata from a file\<close> on;
  \<open>tr\<close> is what happened before.
\<close>

definition fetch_and_cache :: "Env \<Rightarrow> ManagerCtx \<Rightarrow> effect list \<Rightarrow> error option \<times> ManagerCtx \<times> effect list" where
  "fetch_and_cache env m tr =
     (case fetchMetadata env m of
        (Some err, m1, tr1) \<Rightarrow> (Some err, m1, tr @ tr1)
      | (None, m1, tr1) \<Rightarrow>
          (case Marshal env (metadata m1) of
             Inl err \<Rightarrow> (Some err, m1, tr @ tr1)
           | Inr data \<Rightarrow>
               (if CacheDir (config m1) \<noteq> []
                then (saveGlobalCacheData env m1 data, m1, tr @ tr1 @ [CallSaveGlobalCacheData data])
                else (saveLocalCacheData env m1 data, m1, tr @ tr1 @ [CallSaveLocalCacheData data]))))"

definition loadMetadata :: "Env \<Rightarrow> ManagerCtx \<Rightarrow> error option \<times> ManagerCtx \<times> effect list" where
  "loadMetadata env m =
     (if \<not> Cache (config m)
      then (case fetchMetadata env m of
              (r, m1, tr1) \<Rightarrow> (r, m1, LogInfo ''loading metadata'' # tr1))
      else (case getCacheData env m of
              Inr data \<Rightarrow>
                (case Unmarshal env data (metadata m) of
                   (None, md) \<Rightarrow>
                     (None, m\<lparr>metadata := md\<rparr>, [LogInfo ''loading metadata'', CallGetCacheData])
                 | (Some err, md) \<Rightarrow>
                     fetch_and_cache env (m\<lparr>metadata := md\<rparr>)
                       [LogInfo ''loading metadata'', CallGetCacheData,
                        LogErr ''cache unmarhalling returned error, replacing''])
            | Inl err \<Rightarrow>
                (if \<not> is_not_exist err
                 then fetch_and_cache env m
                        [LogInfo ''loading metadata'', CallGetCacheData,
                         LogErr ''cache hit returned error, replacing'']
                 else fetch_and_cache env m [LogInfo ''loading metadata'', CallGetCacheData])))"

subsection \<open>Initialization\<close>

text \<open>
  The loop of \<open>initialize\<close>, \<open>for i := 1; i < len(m.segmentsTimes); i++ { m.segments[i] = false }\<close>,
  for a slice of length \<open>n\<close>.
\<close>

function segments_loop :: "nat \<Rightarrow> nat \<Rightarrow> (int \<rightharpoonup> bool) \<Rightarrow> (int \<rightharpoonup> bool)" where
  "segments_loop n i segs =
     (if i < n then segments_loop n (i + 1) (segs(int i \<mapsto> False)) else segs)"
  by pat_completeness auto
termination
  by (relation "measure (\<lambda>(n, i, segs). n - i)") auto

declare segments_loop.simps [simp del]

text \<open>
  A call either returns, with the manager as it leaves it, or panics, with the manager as
  it is at the panic. \<open>initialize\<close> dereferences \<open>m.metadata\<close> and \<open>m.metadata.Video\<close>
  without a nil check, before its first assignment.
\<close>

datatype outcome = Returned ManagerCtx | Panicked string ManagerCtx

definition initialize :: "ManagerCtx \<Rightarrow> outcome" where
  "initialize m =
     (case metadata m of
        None \<Rightarrow> Panicked ''runtime error: invalid memory address or nil pointer dereference'' m
      | Some md \<Rightarrow>
          (case Video md of
             None \<Rightarrow> Panicked ''runtime error: invalid memory address or nil pointer dereference'' m
           | Some v \<Rightarrow>
               (let m1 = m\<lparr>segmentsTimes := (case PktPtsTime v of None \<Rightarrow> [] | Some ts \<Rightarrow> ts)\<rparr>;
                    m2 = m1\<lparr>playlist := getPlaylist m1\<rparr>;
                    m3 = m2\<lparr>segments := segments_loop (length (segmentsTimes m2)) 1 Map.empty\<rparr>
                in Returned m3)))"

subsection \<open>Start and Stop\<close>

definition close_chan :: "chan option \<Rightarrow> string + chan option" where
  "close_chan c = (case c of
       None \<Rightarrow> Inl ''close of nil channel''
     | Some Closed \<Rightarrow> Inl ''close of closed channel''
     | Some Open \<Rightarrow> Inr (Some Closed))"

text \<open>
  \<open>Start\<close> up to its \<open>return\<close>: the error, the manager, and whether the goroutine was
  launched.
\<close>

definition Start :: "ManagerCtx \<Rightarrow> error option \<times> ManagerCtx \<times> bool" where
  "Start m =
     (if ready m then (Some (Error False ''already running''), m, False)
      else (None, m\<lparr>shutdown := Some Open, ready := False, onReadyChange := Some Open\<rparr>, True))"

text \<open>
  The end of the goroutine that \<open>Start\<close> launches, under the mutex:
  \<open>m.ready = true\<close> and \<open>close(m.onReadyChange)\<close>, on the channel that the field
  holds at that moment.
\<close>

definition publish :: "ManagerCtx \<Rightarrow> outcome" where
  "publish m =
     (let m1 = m\<lparr>ready := True\<rparr>
      in case close_chan (onReadyChange m1) of
           Inl p \<Rightarrow> Panicked p m1
         | Inr c \<Rightarrow> Returned (m1\<lparr>onReadyChange := c\<rparr>))"

text \<open>The goroutine that \<open>Start\<close> launches, run on the manager as it finds it.\<close>

definition Start_go :: "Env \<Rightarrow> ManagerCtx \<Rightarrow> outcome" where
  "Start_go env m =
     (case loadMetadata env m of
        (Some err, m1, tr) \<Rightarrow> Returned m1
      | (None, m1, tr) \<Rightarrow>
          (case initialize m1 of
             Panicked p m2 \<Rightarrow> Panicked p m2
           | Returned m2 \<Rightarrow> publish m2))"

definition Stop :: "ManagerCtx \<Rightarrow> outcome" where
  "Stop m =
     (let m1 = m\<lparr>cancelled := True\<rparr>
      in case close_chan (shutdown m1) of
           Inl p \<Rightarrow> Panicked p m1
         | Inr c \<Rightarrow> Returned (m1\<lparr>shutdown := c, ready := False\<rparr>))"

subsection \<open>The HTTP handlers\<close>

text \<open>
  What a handler sends: \<open>http.Error(w, text, code)\<close>; or the headers it sets and the
  bytes it writes, with the status 200 of a first \<open>Write\<close>; or the headers it sets and the
  file it hands to \<open>http.ServeFile\<close>, which chooses the status.
\<close>

datatype response =
    HttpError string nat
  | Written "(string \<times> string) list" string
  | ServedFile "(string \<times> string) list" string

definition StatusOK :: nat where
  "StatusOK = 200"

definition StatusNotFound :: nat where
  "StatusNotFound = 404"

definition StatusInternalServerError :: nat where
  "StatusInternalServerError = 500"

definition StatusGatewayTimeout :: nat where
  "StatusGatewayTimeout = 504"

fun status :: "response \<Rightarrow> nat option" where
  "status (HttpError text code) = Some code"
| "status (Written hs b) = Some StatusOK"
| "status (ServedFile hs p) = None"

text \<open>
  The case of the \<open>select\<close> in \<open>ServePlaylist\<close> that proceeds: \<open>m.onReadyChange\<close> was
  closed, \<open>m.shutdown\<close> was closed, or \<open>readyTimeout\<close> has passed. A handler either
  responds without waiting (\<open>Respond\<close>), or blocks in the \<open>select\<close> and responds from the
  case that proceeds and the manager as it is then (\<open>Select\<close>). With the response come
  the log lines and the calls made on the way.
\<close>

datatype wake = ReadyChange | Shutdown | Timeout

datatype handler =
    Respond "effect list" response
  | Select "wake \<Rightarrow> ManagerCtx \<Rightarrow> effect list \<times> response"

fun resume :: "handler \<Rightarrow> wake \<Rightarrow> ManagerCtx \<Rightarrow> effect list \<times> response" where
  "resume (Respond tr r) w m' = (tr, r)"
| "resume (Select k) w m' = k w m'"

definition answer :: "handler \<Rightarrow> wake \<Rightarrow> ManagerCtx \<Rightarrow> response" where
  "answer h w m' = snd (resume h w m')"

fun blocks :: "handler \<Rightarrow> bool" where
  "blocks (Respond tr r) = False"
| "blocks (Select k) = True"

text \<open>
  Which case of the \<open>select\<close> can proceed, on the manager as it is when the handler
  wakes. Nothing is ever sent on \<open>m.onReadyChange\<close> or \<open>m.shutdown\<close>, so a receive from
  one of them proceeds when the channel is closed, and blocks while it is open or nil;
  \<open>time.After(readyTimeout)\<close> proceeds once the 24 seconds have passed. (The handler
  waits on the channels that the fields hold when it enters the \<open>select\<close>; this is read
  for executions in which no \<open>Start\<close> replaces them during the wait.)
\<close>

fun may_wake :: "ManagerCtx \<Rightarrow> wake \<Rightarrow> bool" where
  "may_wake m ReadyChange \<longleftrightarrow> onReadyChange m = Some Closed"
| "may_wake m Shutdown \<longleftrightarrow> shutdown m = Some Closed"
| "may_wake m Timeout \<longleftrightarrow> True"

definition write_playlist :: "ManagerCtx \<Rightarrow> response" where
  "write_playlist m = Written [(''Content-Type'', ''application/vnd.apple.mpegurl'')] (playlist m)"

definition ServePlaylist :: "ManagerCtx \<Rightarrow> handler" where
  "ServePlaylist m =
     (if \<not> ready m
      then Select (\<lambda>w m'. case w of
               ReadyChange \<Rightarrow>
                 (if \<not> ready m'
                  then ([LogWarn ''playlist load failed''],
                        HttpError ''504 playlist not available'' StatusInternalServerError)
                  else ([], write_playlist m'))
             | Shutdown \<Rightarrow>
                 ([LogWarn ''playlist load failed because of shutdown''],
                  HttpError ''500 playlist not available'' StatusInternalServerError)
             | Timeout \<Rightarrow>
                 ([LogWarn ''playlist load timeouted''],
                  HttpError ''504 playlist timeout'' StatusGatewayTimeout))
      else Respond [] (write_playlist m))"

text \<open>
  \<open>ServeMedia\<close> does not read its request before \<open>http.ServeFile\<close>: \<open>index\<close> is the
  constant 0. It has no \<open>select\<close> and assigns no field of the manager.
\<close>

definition ServeMedia :: "Env \<Rightarrow> ManagerCtx \<Rightarrow> handler" where
  "ServeMedia env m =
     (let index = 0 in
      case segments m index of
        None \<Rightarrow>
          Respond [LogWarn ''media index not found'']
            (HttpError ''404 index not found'' StatusNotFound)
      | Some available \<Rightarrow>
          (let tr = (if \<not> available then [LogWarn ''media needs to be transcoded''] else []);
               segmentName = getSegmentName m index;
               segmentPath = path_Join env (TranscodeDir (config m)) segmentName
           in case os_Stat env segmentPath of
                Some err \<Rightarrow>
                  (if is_not_exist err
                   then Respond (tr @ [CallStat segmentPath, LogWarn ''media file not found''])
                          (HttpError ''404 media not found'' StatusNotFound)
                   else Respond (tr @ [CallStat segmentPath, CallServeFile segmentPath])
                          (ServedFile [(''Content-Type'', ''application/vnd.apple.mpegurl''),
                                       (''Cache-Control'', ''no-cache'')] segmentPath))
              | None \<Rightarrow>
                  Respond (tr @ [CallStat segmentPath, CallServeFile segmentPath])
                    (ServedFile [(''Content-Type'', ''application/vnd.apple.mpegurl''),
                                 (''Cache-Control'', ''no-cache'')] segmentPath)))"

subsection \<open>The states a manager can be in\<close>

text \<open>
  The fields of a manager are shared by \<open>Start\<close>, \<open>Stop\<close>, the handlers and the
  goroutines that \<open>Start\<close> launches, which run concurrently; \<open>initialize\<close> is called
  (line 196) before the goroutine takes the mutex, and \<open>ServeMedia\<close> reads \<open>m.segments\<close>
  without it. An execution is therefore taken one assignment at a time:
  \<open>step m l m'\<close> says that the assignment at line \<open>l\<close> of \<open>manager.go\<close>, executed on
  the manager \<open>m\<close>, leaves \<open>m'\<close>. The value that an assignment stores was computed
  before it, from a manager that another goroutine may have changed since; so it is left
  open wherever it is read from the manager or comes from a collaborator.

  \<^item> 84, \<open>m.metadata = metadata\<close> in \<open>fetchMetadata\<close>: the non-nil result of the probes,
    whatever it is.
  \<^item> 101, \<open>json.Unmarshal(data, &m.metadata)\<close>: whatever the decoder leaves in the
    field, also when it fails half-way.
  \<^item> 162, 165, 168, 170: the statements of \<open>initialize\<close>. 162 stores the timestamps
    that it read from the metadata and 165 the text that \<open>getPlaylist\<close> returned; 168
    stores a new empty table; 170 stores \<open>false\<close> at the loop variable, which counts
    from 1 (its bound is tested at line 169).
  \<^item> 183, 184, 185: the assignments of \<open>Start\<close>; 200 and 201: the end of its goroutine;
    217, 218, 220: \<open>m.cancel()\<close> and the statements of \<open>Stop\<close> after it. Closing a
    channel that is nil or closed panics and assigns nothing.

  The rules do not record which goroutine is at which line, so they admit every assignment
  at every moment: every interleaving of the calls and goroutines of an execution is among
  the sequences of these steps.
\<close>

inductive step :: "ManagerCtx \<Rightarrow> nat \<Rightarrow> ManagerCtx \<Rightarrow> bool" where
  s84: "step m 84 (m\<lparr>metadata := Some md\<rparr>)"
| s101: "step m 101 (m\<lparr>metadata := md\<rparr>)"
| s162: "step m 162 (m\<lparr>segmentsTimes := ts\<rparr>)"
| s165: "step m 165 (m\<lparr>playlist := text\<rparr>)"
| s168: "step m 168 (m\<lparr>segments := Map.empty\<rparr>)"
| s170: "1 \<le> i \<Longrightarrow> step m 170 (m\<lparr>segments := (segments m)(int i \<mapsto> False)\<rparr>)"
| s183: "step m 183 (m\<lparr>shutdown := Some Open\<rparr>)"
| s184: "step m 184 (m\<lparr>ready := False\<rparr>)"
| s185: "step m 185 (m\<lparr>onReadyChange := Some Open\<rparr>)"
| s200: "step m 200 (m\<lparr>ready := True\<rparr>)"
| s201: "close_chan (onReadyChange m) = Inr c \<Longrightarrow> step m 201 (m\<lparr>onReadyChange := c\<rparr>)"
| s217: "step m 217 (m\<lparr>cancelled := True\<rparr>)"
| s218: "close_chan (shutdown m) = Inr c \<Longrightarrow> step m 218 (m\<lparr>shutdown := c\<rparr>)"
| s220: "step m 220 (m\<lparr>ready := False\<rparr>)"

text \<open>
  An execution from one manager to another, with the lines of its assignments in order;
  and the states of the executions of a manager that \<open>New\<close> has made.
\<close>

inductive run :: "ManagerCtx \<Rightarrow> nat list \<Rightarrow> ManagerCtx \<Rightarrow> bool" where
  run_nil: "run m [] m"
| run_step: "run m ls m' \<Longrightarrow> step m' l m'' \<Longrightarrow> run m (ls @ [l]) m''"

inductive reachable :: "ManagerCtx \<Rightarrow> bool" where
  r_New: "reachable (New c)"
| r_step: "reachable m \<Longrightarrow> step m l m' \<Longrightarrow> reachable m'"

section \<open>Reading a playlist\<close>

text \<open>
  What a client reads in the text of a playlist: its lines, the \<open>#EXTINF\<close> lines among
  them, and the duration that each declares, the decimal numeral between the colon and
  the comma.
\<close>

fun split_on :: "char \<Rightarrow> string \<Rightarrow> string list" where
  "split_on c [] = [[]]"
| "split_on c (x # xs) =
     (if x = c then [] # split_on c xs
      else (case split_on c xs of [] \<Rightarrow> [[x]] | l # ls \<Rightarrow> (x # l) # ls))"

definition is_extinf :: "string \<Rightarrow> bool" where
  "is_extinf l = (take 8 l = ''#EXTINF:'')"

definition digit_val :: "char \<Rightarrow> int option" where
  "digit_val c = (let k = int (of_char c) in if 48 \<le> k \<and> k \<le> 57 then Some (k - 48) else None)"

fun digits_value :: "string \<Rightarrow> int \<Rightarrow> int option" where
  "digits_value [] acc = Some acc"
| "digits_value (c # cs) acc =
     (case digit_val c of None \<Rightarrow> None | Some d \<Rightarrow> digits_value cs (acc * 10 + d))"

definition parse_digits :: "string \<Rightarrow> int option" where
  "parse_digits s = (if s = [] then None else digits_value s 0)"

definition parse_unsigned :: "string \<Rightarrow> rat option" where
  "parse_unsigned s =
     (let ip = takeWhile (\<lambda>c. c \<noteq> CHR ''.'') s; rest = dropWhile (\<lambda>c. c \<noteq> CHR ''.'') s
      in case rest of
           [] \<Rightarrow> map_option of_int (parse_digits ip)
         | dot # fp \<Rightarrow>
             (case parse_digits ip of
                None \<Rightarrow> None
              | Some a \<Rightarrow>
                  (case parse_digits fp of
                     None \<Rightarrow> None
                   | Some b \<Rightarrow> Some (of_int a + of_int b / 10 ^ length fp))))"

definition parse_decimal :: "string \<Rightarrow> rat option" where
  "parse_decimal s =
     (case s of
        [] \<Rightarrow> None
      | c # r \<Rightarrow> if c = CHR ''-'' then map_option uminus (parse_unsigned r) else parse_unsigned s)"

definition declared_duration :: "string \<Rightarrow> rat option" where
  "declared_duration l = parse_decimal (takeWhile (\<lambda>c. c \<noteq> CHR '','') (drop 8 l))"

definition extinf_durations :: "string \<Rightarrow> rat option list" where
  "extinf_durations text = map declared_duration (filter is_extinf (split_on (CHR 0x0A) text))"

text \<open>
  The number that a float64 becomes when it is rounded to \<open>p\<close> decimals, ties to even;
  an infinity and NaN have none.
\<close>

fun rounded_to :: "nat \<Rightarrow> float64 \<Rightarrow> rat option" where
  "rounded_to p (Fin q) =
     Some ((if q < 0 then - 1 else 1) * of_int (round_half_even (\<bar>q\<bar> * 10 ^ p)) / 10 ^ p)"
| "rounded_to p NegZero = Some 0"
| "rounded_to p PosInf = None"
| "rounded_to p NegInf = None"
| "rounded_to p NaN = None"

text \<open>The sum of the durations that a playlist declares.\<close>

definition declared_sum :: "rat option list \<Rightarrow> rat" where
  "declared_sum ds = sum_list (map (\<lambda>d. case d of None \<Rightarrow> 0 | Some r \<Rightarrow> r) ds)"

section \<open>The wording of the specification\<close>

text \<open>
  The segment URI and the playlist as the specification words them: the prefix, the index
  on five digits, \<open>.ts\<close>; and in the playlist, after each \<open>#EXTINF\<close> line, that URI.
\<close>

definition spec_segment_uri :: "string \<Rightarrow> nat \<Rightarrow> string" where
  "spec_segment_uri pre i = pre @ zero_pad 5 (itoa (int i)) @ ''.ts''"

definition spec_playlist :: "ManagerCtx \<Rightarrow> string" where
  "spec_playlist m =
     Join ([''#EXTM3U'',
            ''#EXT-X-VERSION:4'',
            ''#EXT-X-PLAYLIST-TYPE:VOD'',
            ''#EXT-X-MEDIA-SEQUENCE:0'',
            ''#EXT-X-TARGETDURATION:'' @ fmt_f 2 (segmentDuration m)]
           @ concat (map (\<lambda>i. [''#EXTINF:'' @ fmt_f 3 (fsub (segmentsTimes m ! i) (segmentsTimes m ! (i - 1)))
                                 @ '', no desc'',
                               spec_segment_uri (SegmentPrefix (config m)) i])
                         [1..<length (segmentsTimes m)])
           @ [''#EXT-X-ENDLIST'']) [CHR 0x0A]"

text \<open>
  The durations as the specification words them, \<open>timestamps[i] - timestamps[i-1]\<close>, for
  finite timestamps.
\<close>

definition spec_durations :: "rat list \<Rightarrow> rat list" where
  "spec_durations qs = map (\<lambda>i. qs ! i - qs ! (i - 1)) [1..<length qs]"

section \<open>Example managers\<close>

definition ex_config :: Config where
  "ex_config = \<lparr> MediaPath = ''/media/film.mp4'', FFprobeBinary = ''ffprobe'',
                 TranscodeDir = ''/tmp/transcode'', SegmentPrefix = ''seg'',
                 Cache = True, CacheDir = [] \<rparr>"

definition ex_metadata :: "float64 list \<Rightarrow> ProbeMediaData" where
  "ex_metadata ts = \<lparr> Video = Some \<lparr> PktPtsTime = Some ts \<rparr> \<rparr>"

text \<open>Keyframes at 0 s, 1.03125 s and 2.0625 s: binary fractions, so every float64 operation on them is exact.\<close>

definition ex_times :: "rat list" where
  "ex_times = [0, 33 / 32, 33 / 16]"

definition ex_planned :: ManagerCtx where
  "ex_planned = (New ex_config)\<lparr>segmentsTimes := map Fin ex_times\<rparr>"

definition ex_loaded :: ManagerCtx where
  "ex_loaded = (New ex_config)\<lparr>metadata := Some (ex_metadata (map Fin ex_times))\<rparr>"

definition ex_initialized :: ManagerCtx where
  "ex_initialized = (case initialize ex_loaded of Returned m \<Rightarrow> m | Panicked p m \<Rightarrow> m)"

definition ex_started :: ManagerCtx where
  "ex_started = fst (snd (Start (New ex_config)))"

definition ex_stopped :: ManagerCtx where
  "ex_stopped = (case Stop ex_started of Returned m \<Rightarrow> m | Panicked p m \<Rightarrow> m)"

text \<open>
  Collaborators for the examples. The cache holds a truncated entry, which does not
  deserialize; the fast probe finds the keyframes of \<open>ex_times\<close>; the local cache accepts
  the write. In \<open>ex_env_missing\<close> the cache has no entry; in \<open>ex_env_failing\<close> there is
  none either and the probe fails.
\<close>

definition ex_truncated :: string where
  \<open>ex_truncated = ''{"video":''\<close>

definition ex_bytes :: string where
  \<open>ex_bytes = ''{"video":{"pkt_pts_time":[0,1.03125,2.0625]}}''\<close>

definition ex_env :: Env where
  "ex_env = \<lparr> ProbeMedia = (\<lambda>c b p. Inr (ex_metadata (map Fin ex_times))),
              ProbeVideo = (\<lambda>c b p. Inl (Error False ''not called'')),
              getCacheData = (\<lambda>m. Inr ex_truncated),
              saveGlobalCacheData = (\<lambda>m d. Some (Error False ''no cache directory'')),
              saveLocalCacheData = (\<lambda>m d. None),
              Unmarshal = (\<lambda>d old. (Some (Error False ''unexpected end of JSON input''), old)),
              Marshal = (\<lambda>md. Inr ex_bytes),
              path_Join = (\<lambda>d f. d @ ''/'' @ f),
              os_Stat = (\<lambda>p. Some (Error True ''no such file or directory'')) \<rparr>"

definition ex_env_missing :: Env where
  "ex_env_missing = ex_env\<lparr>getCacheData := (\<lambda>m. Inl (Error True ''no such file or directory''))\<rparr>"

definition ex_env_failing :: Env where
  "ex_env_failing = ex_env_missing\<lparr>ProbeMedia := (\<lambda>c b p. Inl (Error False ''exit status 1''))\<rparr>"


definition ex_ready :: ManagerCtx where
  "ex_ready = (case Start_go ex_env ex_started of Returned m \<Rightarrow> m | Panicked p m \<Rightarrow> m)"

text \<open>
  A second manager, with a shared cache directory and no entry in it; the global cache
  accepts the write. And a manager that holds the metadata of \<open>ex_loaded\<close> in another
  state: ready, stopped once, with a stale playlist and a stale table.
\<close>

definition ex_shared :: ManagerCtx where
  "ex_shared = New (ex_config\<lparr>CacheDir := ''/var/cache/hlsvod''\<rparr>)"

definition ex_env_shared :: Env where
  "ex_env_shared = ex_env_missing\<lparr>saveGlobalCacheData := (\<lambda>m d. None),
                                   saveLocalCacheData := (\<lambda>m d. Some (Error False ''not called''))\<rparr>"

definition ex_loaded_other :: ManagerCtx where
  "ex_loaded_other = ex_loaded\<lparr>ready := True, shutdown := Some Closed, playlist := ''stale'',
                               segments := [7 \<mapsto> True], segmentsTimes := [Fin 5]\<rparr>"

definition ex_initialized_other :: ManagerCtx where
  "ex_initialized_other = (case initialize ex_loaded_other of Returned m \<Rightarrow> m | Panicked p m \<Rightarrow> m)"

text \<open>
  In \<open>ex_env_scan\<close> the cache has no entry and the fast probe finds a video stream
  without keyframe timestamps, which the full-scan probe supplies.
\<close>

definition ex_env_scan :: Env where
  "ex_env_scan = ex_env_missing\<lparr>ProbeMedia := (\<lambda>c b p. Inr \<lparr>Video = Some \<lparr>PktPtsTime = None\<rparr>\<rparr>),
                                 ProbeVideo := (\<lambda>c b p. Inr \<lparr>PktPtsTime = Some (map Fin ex_times)\<rparr>)\<rparr>"

text \<open>
  A manager in the middle of \<open>initialize\<close>: started, the metadata loaded, line 162
  executed and line 165 not yet; the table is still the empty one of \<open>New\<close>.
\<close>

definition ex_assigning :: ManagerCtx where
  "ex_assigning = ex_started\<lparr>metadata := Some (ex_metadata (map Fin ex_times)),
                             segmentsTimes := map Fin ex_times\<rparr>"









section \<open>Notions used in the statements\<close>

text \<open>The manager that a call leaves behind, whether it returned or panicked.\<close>

fun state_of :: "outcome \<Rightarrow> ManagerCtx" where
  "state_of (Returned m) = m"
| "state_of (Panicked p m) = m"

text \<open>
  The metadata of a fresh probe, as the specification words it: the result of the fast
  probe; when the media has a video stream and the fast probe gave no keyframe timestamps,
  that result with the timestamps of the full-scan probe; \<open>None\<close> when a probe fails.
\<close>

definition probed :: "Env \<Rightarrow> ManagerCtx \<Rightarrow> ProbeMediaData option" where
  "probed env m =
     (case ProbeMedia env (cancelled m) (FFprobeBinary (config m)) (MediaPath (config m)) of
        Inl err \<Rightarrow> None
      | Inr md \<Rightarrow>
          (case Video md of
             None \<Rightarrow> Some md
           | Some v \<Rightarrow>
               if PktPtsTime v = None
               then (case ProbeVideo env (cancelled m) (FFprobeBinary (config m))
                            (MediaPath (config m)) of
                       Inl err \<Rightarrow> None
                     | Inr videoData \<Rightarrow>
                         Some (md\<lparr>Video := Some (v\<lparr>PktPtsTime := PktPtsTime videoData\<rparr>)\<rparr>))
               else Some md))"

text \<open>
  The probes that a fresh probe runs, as the specification words it: the fast probe, and
  after it the full-scan probe when the media has a video stream and the fast probe gave
  no keyframe timestamps.
\<close>

definition probe_calls :: "Env \<Rightarrow> ManagerCtx \<Rightarrow> effect list" where
  "probe_calls env m =
     (case ProbeMedia env (cancelled m) (FFprobeBinary (config m)) (MediaPath (config m)) of
        Inl err \<Rightarrow> [CallProbeMedia]
      | Inr md \<Rightarrow>
          (case Video md of
             None \<Rightarrow> [CallProbeMedia]
           | Some v \<Rightarrow> if PktPtsTime v = None then [CallProbeMedia, CallProbeVideo]
                       else [CallProbeMedia]))"

text \<open>The effects that are calls, as opposed to log lines.\<close>

fun is_call :: "effect \<Rightarrow> bool" where
  "is_call (LogInfo s) = False"
| "is_call (LogErr s) = False"
| "is_call (LogWarn s) = False"
| "is_call _ = True"

text \<open>
  What every state of a manager satisfies, also in the middle of \<open>initialize\<close>: the keys
  of the segment table are at least 1, all of its entries are \<open>false\<close>, and the suffix and
  the nominal duration are those that \<open>New\<close> installed.
\<close>

definition manager_inv :: "ManagerCtx \<Rightarrow> bool" where
  "manager_inv m \<longleftrightarrow>
     (\<forall>k b. segments m k = Some b \<longrightarrow> 1 \<le> k \<and> \<not> b)
     \<and> segmentSuffix m = ''-%05d.ts''
     \<and> segmentDuration m = Fin (19 / 4)"

section \<open>The playlist\<close>

subsection \<open>The loop and the lines\<close>

lemma playlist_loop_eq:
  "playlist_loop m i acc =
     acc @ concat (map (\<lambda>i. [''#EXTINF:'' @ fmt_f 3 (fsub (segmentsTimes m ! i) (segmentsTimes m ! (i - 1)))
                               @ '', no desc'',
                             getSegmentName m (int i)])
                       [i..<length (segmentsTimes m)])"
proof (induction m i acc rule: playlist_loop.induct)
  case (1 m i acc)
  show ?case
  proof (cases "i < length (segmentsTimes m)")
    case True
    have "[i..<length (segmentsTimes m)] = i # [i + 1..<length (segmentsTimes m)]"
      using True by (simp add: upt_conv_Cons)
    then show ?thesis
      using True 1 by (subst playlist_loop.simps) simp
  next
    case False
    then show ?thesis by (subst playlist_loop.simps) simp
  qed
qed

lemma getPlaylist_lines_eq:
  "getPlaylist_lines m =
     [''#EXTM3U'',
      ''#EXT-X-VERSION:4'',
      ''#EXT-X-PLAYLIST-TYPE:VOD'',
      ''#EXT-X-MEDIA-SEQUENCE:0'',
      ''#EXT-X-TARGETDURATION:'' @ fmt_f 2 (segmentDuration m)]
     @ concat (map (\<lambda>i. [''#EXTINF:'' @ fmt_f 3 (fsub (segmentsTimes m ! i) (segmentsTimes m ! (i - 1)))
                               @ '', no desc'',
                             getSegmentName m (int i)])
                       [1..<length (segmentsTimes m)])
     @ [''#EXT-X-ENDLIST'']"
  by (simp add: getPlaylist_lines_def playlist_loop_eq)

lemma Sprintf_d_suffix: "Sprintf_d ''-%05d.ts'' i = ''-'' @ fmt_05d i @ ''.ts''"
  by simp

lemma fmt_05d_nat: "fmt_05d (int i) = zero_pad 5 (itoa (int i))"
  by (simp add: fmt_05d_def)

lemma getSegmentName_suffix:
  "segmentSuffix m = ''-%05d.ts'' \<Longrightarrow>
   getSegmentName m (int i) = SegmentPrefix (config m) @ ''-'' @ zero_pad 5 (itoa (int i)) @ ''.ts''"
  by (simp add: getSegmentName_def fmt_05d_nat)

lemma nominal_duration_text: "fmt_f 2 (Fin (19 / 4)) = ''4.75''"
  by code_simp

subsection \<open>The example, evaluated\<close>

lemma ex_diff_1: "fsub (Fin (33 / 32)) (Fin 0) = Fin (33 / 32)"
  by code_simp

lemma ex_diff_2: "fsub (Fin (33 / 16)) (Fin (33 / 32)) = Fin (33 / 32)"
  by code_simp

lemma ex_fmt: "fmt_f 3 (Fin (33 / 32)) = ''1.031''"
  by code_simp

lemma ex_pad_1: "zero_pad 5 (itoa 1) = ''00001''"
  by code_simp

lemma ex_pad_2: "zero_pad 5 (itoa 2) = ''00002''"
  by code_simp

lemma upt_1_3: "[1..<3] = [1, 2]"
  by code_simp

lemma ex_planned_lines:
  "getPlaylist_lines ex_planned =
     [''#EXTM3U'', ''#EXT-X-VERSION:4'', ''#EXT-X-PLAYLIST-TYPE:VOD'', ''#EXT-X-MEDIA-SEQUENCE:0'',
      ''#EXT-X-TARGETDURATION:4.75'',
      ''#EXTINF:1.031, no desc'', ''seg-00001.ts'',
      ''#EXTINF:1.031, no desc'', ''seg-00002.ts'',
      ''#EXT-X-ENDLIST'']"
  by (simp add: getPlaylist_lines_eq ex_planned_def New_def ex_config_def ex_times_def
      getSegmentName_def fmt_05d_def nominal_duration_text ex_diff_1 ex_diff_2 ex_fmt
      ex_pad_1 ex_pad_2 upt_1_3
      del: fmt_f.simps fsub.simps)

lemma ex_planned_text:
  "getPlaylist ex_planned =
     ''#EXTM3U\<newline>#EXT-X-VERSION:4\<newline>#EXT-X-PLAYLIST-TYPE:VOD\<newline>#EXT-X-MEDIA-SEQUENCE:0\<newline>#EXT-X-TARGETDURATION:4.75\<newline>#EXTINF:1.031, no desc\<newline>seg-00001.ts\<newline>#EXTINF:1.031, no desc\<newline>seg-00002.ts\<newline>#EXT-X-ENDLIST''"
  by (simp add: getPlaylist_def ex_planned_lines)

lemma ex_planned_spec_text:
  "spec_playlist ex_planned =
     ''#EXTM3U\<newline>#EXT-X-VERSION:4\<newline>#EXT-X-PLAYLIST-TYPE:VOD\<newline>#EXT-X-MEDIA-SEQUENCE:0\<newline>#EXT-X-TARGETDURATION:4.75\<newline>#EXTINF:1.031, no desc\<newline>seg00001.ts\<newline>#EXTINF:1.031, no desc\<newline>seg00002.ts\<newline>#EXT-X-ENDLIST''"
  by (simp add: spec_playlist_def spec_segment_uri_def
      ex_planned_def New_def ex_config_def ex_times_def
      nominal_duration_text ex_diff_1 ex_diff_2 ex_fmt ex_pad_1 ex_pad_2 upt_1_3
      del: fmt_f.simps fsub.simps)

subsection \<open>The text of the playlist\<close>

text \<open>
  C2, as the specification words it, fails: for the boundaries 0, 1.03125, 2.0625 and the
  prefix \<open>seg\<close> the playlist is not the text with the URIs \<open>seg00001.ts\<close> and
  \<open>seg00002.ts\<close>; its seventh line is \<open>seg-00001.ts\<close>, with the hyphen that begins
  \<open>segmentSuffix\<close>.
\<close>

theorem playlist_uri_counterexample:
  "getPlaylist ex_planned \<noteq> spec_playlist ex_planned
   \<and> getPlaylist_lines ex_planned ! 6 = ''seg-00001.ts''
   \<and> spec_segment_uri (SegmentPrefix (config ex_planned)) 1 = ''seg00001.ts''"
proof -
  have "getPlaylist ex_planned \<noteq> spec_playlist ex_planned"
    unfolding ex_planned_text ex_planned_spec_text by simp
  moreover have "getPlaylist_lines ex_planned ! 6 = ''seg-00001.ts''"
    unfolding ex_planned_lines by simp
  moreover have "spec_segment_uri (SegmentPrefix (config ex_planned)) 1 = ''seg00001.ts''"
    using ex_pad_1 by (simp add: spec_segment_uri_def ex_planned_def New_def ex_config_def)
  ultimately show ?thesis by blast
qed

text \<open>
  C2, amended: for every list of segment boundaries, the playlist of a manager with the
  suffix and the nominal duration that \<open>New\<close> installs is, joined by newlines: the four
  fixed header lines, \<open>#EXT-X-TARGETDURATION:4.75\<close> (the nominal duration on two
  decimals, whatever the segments are), then for each index \<open>i\<close> from 1 in ascending order the line
  \<open>#EXTINF:\<close>, the float64 difference of the boundaries \<open>i\<close> and \<open>i - 1\<close> on three
  decimals, \<open>, no desc\<close>, and the line of the URI, and last \<open>#EXT-X-ENDLIST\<close>. The URI is
  the configured prefix, a hyphen, the index padded with zeros to five digits or more,
  and \<open>.ts\<close>.
\<close>

theorem playlist_text_exact:
  assumes "segmentSuffix m = ''-%05d.ts''" and "segmentDuration m = Fin (19 / 4)"
  shows "getPlaylist m =
     Join ([''#EXTM3U'',
            ''#EXT-X-VERSION:4'',
            ''#EXT-X-PLAYLIST-TYPE:VOD'',
            ''#EXT-X-MEDIA-SEQUENCE:0'',
            ''#EXT-X-TARGETDURATION:4.75'']
           @ concat (map (\<lambda>i. [''#EXTINF:'' @ fmt_f 3 (fsub (segmentsTimes m ! i) (segmentsTimes m ! (i - 1)))
                                 @ '', no desc'',
                               SegmentPrefix (config m) @ ''-'' @ zero_pad 5 (itoa (int i)) @ ''.ts''])
                         [1..<length (segmentsTimes m)])
           @ [''#EXT-X-ENDLIST'']) [CHR 0x0A]"
proof -
  have names: "getSegmentName m (int i) = SegmentPrefix (config m) @ ''-'' @ zero_pad 5 (itoa (int i)) @ ''.ts''" for i
    using assms(1) by (rule getSegmentName_suffix)
  have "fmt_f 2 (segmentDuration m) = ''4.75''"
    unfolding assms(2) by (rule nominal_duration_text)
  then show ?thesis
    unfolding getPlaylist_def getPlaylist_lines_eq names by simp
qed

theorem playlist_text_exact_witness:
  "segmentSuffix ex_planned = ''-%05d.ts'' \<and> segmentDuration ex_planned = Fin (19 / 4)
   \<and> getPlaylist ex_planned =
     Join ([''#EXTM3U'',
            ''#EXT-X-VERSION:4'',
            ''#EXT-X-PLAYLIST-TYPE:VOD'',
            ''#EXT-X-MEDIA-SEQUENCE:0'',
            ''#EXT-X-TARGETDURATION:4.75'']
           @ concat (map (\<lambda>i. [''#EXTINF:'' @ fmt_f 3 (fsub (segmentsTimes ex_planned ! i) (segmentsTimes ex_planned ! (i - 1)))
                                 @ '', no desc'',
                               SegmentPrefix (config ex_planned) @ ''-'' @ zero_pad 5 (itoa (int i)) @ ''.ts''])
                         [1..<length (segmentsTimes ex_planned)])
           @ [''#EXT-X-ENDLIST'']) [CHR 0x0A]"
proof -
  have a: "segmentSuffix ex_planned = ''-%05d.ts''"
    by (simp add: ex_planned_def New_def)
  have b: "segmentDuration ex_planned = Fin (19 / 4)"
    by (simp add: ex_planned_def New_def)
  show ?thesis
    using a b playlist_text_exact [OF a b] by blast
qed

section \<open>The states of a manager\<close>

subsection \<open>What each operation leaves unchanged\<close>

lemma fetchMetadata_frame:
  "fetchMetadata env m = (e, m', tr) \<Longrightarrow> \<exists>md. m' = m\<lparr>metadata := md\<rparr>"
  unfolding fetchMetadata_def
  by (auto split: sum.splits option.splits if_splits intro: exI [of _ "metadata m"])

lemma fetch_and_cache_frame:
  "fetch_and_cache env m tr0 = (e, m', tr) \<Longrightarrow> \<exists>md. m' = m\<lparr>metadata := md\<rparr>"
  unfolding fetch_and_cache_def
  by (auto split: prod.splits sum.splits option.splits if_splits dest: fetchMetadata_frame)

lemma loadMetadata_frame:
  "loadMetadata env m = (e, m', tr) \<Longrightarrow> \<exists>md. m' = m\<lparr>metadata := md\<rparr>"
  unfolding loadMetadata_def
  by (auto split: prod.splits sum.splits option.splits if_splits
      dest!: fetchMetadata_frame fetch_and_cache_frame)

subsection \<open>The segment table\<close>

lemma segments_loop_step:
  "i < n \<Longrightarrow> segments_loop n i segs = segments_loop n (i + 1) (segs(int i \<mapsto> False))"
  by (subst segments_loop.simps) simp

lemma segments_loop_stop:
  "\<not> i < n \<Longrightarrow> segments_loop n i segs = segs"
  by (subst segments_loop.simps) simp

lemma segments_loop_below:
  "k < int i \<Longrightarrow> segments_loop n i segs k = segs k"
proof (induction n i segs rule: segments_loop.induct)
  case (1 n i segs)
  show ?case
  proof (cases "i < n")
    case True
    have "k < int (i + 1)"
      using 1(2) by simp
    then have "segments_loop n (i + 1) (segs(int i \<mapsto> False)) k = (segs(int i \<mapsto> False)) k"
      by (rule 1(1) [OF True])
    also have "\<dots> = segs k"
      using 1(2) by simp
    finally show ?thesis
      by (simp only: segments_loop_step [OF True])
  next
    case False
    then show ?thesis by (simp add: segments_loop_stop)
  qed
qed

lemma segments_loop_dom:
  "dom (segments_loop n i segs) = dom segs \<union> {k. int i \<le> k \<and> k < int n}"
proof (induction n i segs rule: segments_loop.induct)
  case (1 n i segs)
  show ?case
  proof (cases "i < n")
    case True
    have "dom (segments_loop n (i + 1) (segs(int i \<mapsto> False)))
        = dom (segs(int i \<mapsto> False)) \<union> {k. int (i + 1) \<le> k \<and> k < int n}"
      using 1 True by blast
    also have "\<dots> = dom segs \<union> {k. int i \<le> k \<and> k < int n}"
      using True by auto
    finally show ?thesis
      by (simp only: segments_loop_step [OF True])
  next
    case False
    then show ?thesis by (auto simp: segments_loop_stop)
  qed
qed

lemma segments_loop_False:
  "segments_loop n i segs k = Some b \<Longrightarrow> segs k = None \<Longrightarrow> \<not> b"
proof (induction n i segs rule: segments_loop.induct)
  case (1 n i segs)
  show ?case
  proof (cases "i < n")
    case True
    note run = 1(2) [unfolded segments_loop_step [OF True]]
    show ?thesis
    proof (cases "k = int i")
      case True
      then have "segments_loop n (i + 1) (segs(int i \<mapsto> False)) k = (segs(int i \<mapsto> False)) k"
        by (intro segments_loop_below) simp
      then show ?thesis using run True by simp
    next
      case False
      then have "(segs(int i \<mapsto> False)) k = None"
        using 1(3) by simp
      then show ?thesis
        using 1(1) [OF True run] by blast
    qed
  next
    case False
    then show ?thesis using 1 by (simp add: segments_loop_stop)
  qed
qed

lemma initialize_Returned:
  "initialize m = Returned m' \<Longrightarrow>
   \<exists>md v. metadata m = Some md \<and> Video md = Some v \<and>
     m' = m\<lparr>segmentsTimes := (case PktPtsTime v of None \<Rightarrow> [] | Some ts \<Rightarrow> ts),
            playlist := getPlaylist (m\<lparr>segmentsTimes := (case PktPtsTime v of None \<Rightarrow> [] | Some ts \<Rightarrow> ts)\<rparr>),
            segments := segments_loop (length (case PktPtsTime v of None \<Rightarrow> [] | Some ts \<Rightarrow> ts)) 1 Map.empty\<rparr>"
  unfolding initialize_def
  by (auto split: option.splits simp: Let_def)

lemma initialize_table:
  assumes "initialize m = Returned m'"
  shows "dom (segments m') = {k. 1 \<le> k \<and> k < int (length (segmentsTimes m'))}"
proof -
  from initialize_Returned [OF assms] obtain ts
    where m': "m' = m\<lparr>segmentsTimes := ts, playlist := getPlaylist (m\<lparr>segmentsTimes := ts\<rparr>),
                       segments := segments_loop (length ts) 1 Map.empty\<rparr>"
    by blast
  show ?thesis
    by (simp add: m' segments_loop_dom)
qed

lemma ServeMedia_no_key:
  "segments m 0 = None \<Longrightarrow>
   ServeMedia env m = Respond [LogWarn ''media index not found''] (HttpError ''404 index not found'' 404)"
  by (simp add: ServeMedia_def StatusNotFound_def)

section \<open>Start and Stop\<close>

lemma Stop_Returned:
  "Stop m = Returned m' \<Longrightarrow>
   shutdown m = Some Open \<and> m' = m\<lparr>cancelled := True, shutdown := Some Closed, ready := False\<rparr>"
  by (auto simp: Stop_def Let_def close_chan_def split: sum.splits option.splits chan.splits)

text \<open>
  C4 asks that a second \<open>Stop\<close> on a started manager neither panics nor deadlocks,
  behind an already-stopped check. \<open>Stop\<close> has no such check: whenever a call of
  \<open>Stop\<close> returns, it has closed \<open>m.shutdown\<close>, and the next call panics in
  \<open>close(m.shutdown)\<close>, after \<open>m.cancel()\<close> and before \<open>m.ready = false\<close>.
\<close>

theorem Stop_twice_panics:
  assumes "Stop m = Returned m'"
  shows "Stop m' = Panicked ''close of closed channel'' m'"
  using Stop_Returned [OF assms] by (simp add: Stop_def close_chan_def)

lemma ex_started_eq:
  "ex_started = (New ex_config)\<lparr>shutdown := Some Open, ready := False, onReadyChange := Some Open\<rparr>"
  by (simp add: ex_started_def Start_def New_def)

lemma ex_Start: "Start (New ex_config) = (None, ex_started, True)"
  by (simp add: ex_started_def Start_def New_def)

lemma ex_Stop: "Stop ex_started = Returned ex_stopped"
  by (simp add: ex_stopped_def ex_started_eq Stop_def close_chan_def)

theorem Stop_twice_panics_witness:
  "Stop ex_started = Returned ex_stopped \<and> Stop ex_stopped = Panicked ''close of closed channel'' ex_stopped"
  using ex_Stop Stop_twice_panics [OF ex_Stop] by simp

section \<open>Executions\<close>

subsection \<open>Putting executions together\<close>

lemma run_single: "step m l m' \<Longrightarrow> run m [l] m'"
  using run_step [OF run_nil, of m l m'] by simp

lemma run_trans:
  assumes "run b ks c" and "run a ls b"
  shows "run a (ls @ ks) c"
  using assms
proof (induction rule: run.induct)
  case (run_nil m)
  then show ?case by simp
next
  case (run_step m ks m' l m'')
  have "run a (ls @ ks) m'"
    using run_step.IH run_step.prems by blast
  then have "run a ((ls @ ks) @ [l]) m''"
    using run_step.hyps(2) by (rule run.run_step)
  then show ?case by simp
qed

lemma reachable_run:
  assumes "run m ls m'" and "reachable m"
  shows "reachable m'"
  using assms by (induction rule: run.induct) (auto intro: r_step)

lemma reachable_is_run: "reachable m \<Longrightarrow> \<exists>c ls. run (New c) ls m"
  by (induction rule: reachable.induct) (blast intro: run.intros)+

subsection \<open>The calls and the goroutine, as executions\<close>

lemma Start_refused: "Start m = (Some e, m', b) \<Longrightarrow> m' = m"
  by (auto simp: Start_def split: if_splits)

lemma Start_run:
  assumes "Start m = (None, m', b)"
  shows "run m [183, 184, 185] m'"
proof -
  have m': "m' = m\<lparr>shutdown := Some Open, ready := False, onReadyChange := Some Open\<rparr>"
    using assms by (auto simp: Start_def split: if_splits)
  have "run m [183] (m\<lparr>shutdown := Some Open\<rparr>)"
    by (rule run_single) (rule s183)
  then have "run m ([183] @ [184]) (m\<lparr>shutdown := Some Open, ready := False\<rparr>)"
    by (rule run_step) (rule s184)
  then have "run m (([183] @ [184]) @ [185])
               (m\<lparr>shutdown := Some Open, ready := False, onReadyChange := Some Open\<rparr>)"
    by (rule run_step) (rule s185)
  then show ?thesis
    by (simp add: m')
qed

lemma Stop_run:
  assumes "Stop m = Returned m'"
  shows "run m [217, 218, 220] m'"
proof -
  from Stop_Returned [OF assms]
  have o: "shutdown m = Some Open"
    and m': "m' = m\<lparr>cancelled := True, shutdown := Some Closed, ready := False\<rparr>"
    by blast+
  have c: "close_chan (shutdown (m\<lparr>cancelled := True\<rparr>)) = Inr (Some Closed)"
    using o by (simp add: close_chan_def)
  have "run m [217] (m\<lparr>cancelled := True\<rparr>)"
    by (rule run_single) (rule s217)
  then have "run m ([217] @ [218]) (m\<lparr>cancelled := True, shutdown := Some Closed\<rparr>)"
    by (rule run_step) (rule s218 [OF c])
  then have "run m (([217] @ [218]) @ [220])
               (m\<lparr>cancelled := True, shutdown := Some Closed, ready := False\<rparr>)"
    by (rule run_step) (rule s220)
  then show ?thesis
    by (simp add: m')
qed

lemma Stop_panic_run:
  assumes "Stop m = Panicked p m'"
  shows "run m [217] m'"
proof -
  have "m' = m\<lparr>cancelled := True\<rparr>"
    using assms by (auto simp: Stop_def Let_def split: sum.splits)
  then show ?thesis
    by (simp add: run_single s217)
qed

lemma fetchMetadata_run:
  assumes "fetchMetadata env m = (e, m', tr)"
  shows "\<exists>ls. run m ls m' \<and> set ls \<subseteq> {84}"
proof -
  have "m' = m \<or> (\<exists>md. m' = m\<lparr>metadata := Some md\<rparr>)"
    using assms unfolding fetchMetadata_def
    by (auto split: sum.splits option.splits if_splits)
  then show ?thesis
  proof
    assume "m' = m"
    then have "run m [] m' \<and> set [] \<subseteq> {84::nat}"
      by (simp add: run_nil)
    then show ?thesis by blast
  next
    assume "\<exists>md. m' = m\<lparr>metadata := Some md\<rparr>"
    then have "run m [84] m' \<and> set [84] \<subseteq> {84::nat}"
      by (auto intro: run_single s84)
    then show ?thesis by blast
  qed
qed

lemma run_subset: "run m ls m' \<and> set ls \<subseteq> A \<Longrightarrow> A \<subseteq> B \<Longrightarrow> \<exists>ks. run m ks m' \<and> set ks \<subseteq> B"
  by (rule exI [of _ ls]) auto

lemma fetch_and_cache_run:
  assumes "fetch_and_cache env m tr0 = (e, m', tr)"
  shows "\<exists>ls. run m ls m' \<and> set ls \<subseteq> {84}"
proof -
  obtain e1 m1 tr1 where f: "fetchMetadata env m = (e1, m1, tr1)"
    by (cases "fetchMetadata env m") auto
  have "m' = m1"
    using assms f unfolding fetch_and_cache_def
    by (auto split: option.splits sum.splits if_splits)
  then show ?thesis
    using fetchMetadata_run [OF f] by simp
qed

lemma loadMetadata_run:
  assumes "loadMetadata env m = (e, m', tr)"
  shows "\<exists>ls. run m ls m' \<and> set ls \<subseteq> {84, 101}"
proof (cases "Cache (config m)")
  case False
  obtain e1 m1 tr1 where f: "fetchMetadata env m = (e1, m1, tr1)"
    by (cases "fetchMetadata env m") auto
  have "m' = m1"
    using assms False f by (simp add: loadMetadata_def)
  with fetchMetadata_run [OF f] obtain ls where "run m ls m' \<and> set ls \<subseteq> {84}"
    by auto
  then show ?thesis
    by (rule run_subset) simp
next
  case True
  show ?thesis
  proof (cases "getCacheData env m")
    case (Inl err)
    define tr0 where "tr0 = (if \<not> is_not_exist err
        then [LogInfo ''loading metadata'', CallGetCacheData,
              LogErr ''cache hit returned error, replacing'']
        else [LogInfo ''loading metadata'', CallGetCacheData])"
    have "fetch_and_cache env m tr0 = (e, m', tr)"
      using assms True Inl by (cases "is_not_exist err") (simp_all add: loadMetadata_def tr0_def)
    from fetch_and_cache_run [OF this] obtain ls where "run m ls m' \<and> set ls \<subseteq> {84}"
      by auto
    then show ?thesis
      by (rule run_subset) simp
  next
    case (Inr data)
    obtain ue md where u: "Unmarshal env data (metadata m) = (ue, md)"
      by (cases "Unmarshal env data (metadata m)") auto
    have 1: "run m [101] (m\<lparr>metadata := md\<rparr>)"
      by (rule run_single) (rule s101)
    show ?thesis
    proof (cases ue)
      case None
      then have "m' = m\<lparr>metadata := md\<rparr>"
        using assms True Inr u by (simp add: loadMetadata_def)
      then have "run m [101] m' \<and> set [101] \<subseteq> {101::nat}"
        using 1 by simp
      then show ?thesis
        by (rule run_subset) simp
    next
      case (Some uerr)
      then have "fetch_and_cache env (m\<lparr>metadata := md\<rparr>)
                   [LogInfo ''loading metadata'', CallGetCacheData,
                    LogErr ''cache unmarhalling returned error, replacing''] = (e, m', tr)"
        using assms True Inr u by (simp add: loadMetadata_def)
      from fetch_and_cache_run [OF this] obtain ls
        where ls: "run (m\<lparr>metadata := md\<rparr>) ls m'" and sub: "set ls \<subseteq> {84}"
        by auto
      have "run m ([101] @ ls) m'"
        using ls 1 by (rule run_trans)
      moreover have "set ([101] @ ls) \<subseteq> {84, 101}"
        using sub by auto
      ultimately show ?thesis
        by blast
    qed
  qed
qed

lemma segments_loop_run:
  assumes "1 \<le> i"
  shows "\<exists>ls. run (m\<lparr>segments := s\<rparr>) ls (m\<lparr>segments := segments_loop n i s\<rparr>) \<and> set ls \<subseteq> {170}"
  using assms
proof (induction n i s rule: segments_loop.induct)
  case (1 n i segs)
  show ?case
  proof (cases "i < n")
    case True
    have w: "step (m\<lparr>segments := segs\<rparr>) 170 (m\<lparr>segments := segs(int i \<mapsto> False)\<rparr>)"
      using s170 [of i "m\<lparr>segments := segs\<rparr>"] "1.prems" by simp
    have i: "1 \<le> i + 1"
      by simp
    have "\<exists>ls. run (m\<lparr>segments := segs(int i \<mapsto> False)\<rparr>) ls
                 (m\<lparr>segments := segments_loop n (i + 1) (segs(int i \<mapsto> False))\<rparr>) \<and> set ls \<subseteq> {170}"
      using True i by (rule "1.IH")
    then obtain ls
      where ls: "run (m\<lparr>segments := segs(int i \<mapsto> False)\<rparr>) ls
                   (m\<lparr>segments := segments_loop n (i + 1) (segs(int i \<mapsto> False))\<rparr>)"
        and sub: "set ls \<subseteq> {170}"
      by blast
    have "run (m\<lparr>segments := segs\<rparr>) ([170] @ ls)
            (m\<lparr>segments := segments_loop n (i + 1) (segs(int i \<mapsto> False))\<rparr>)"
      using ls run_single [OF w] by (rule run_trans)
    moreover have "set ([170] @ ls) \<subseteq> {170}"
      using sub by simp
    ultimately show ?thesis
      unfolding segments_loop_step [OF True] by blast
  next
    case False
    have "run (m\<lparr>segments := segs\<rparr>) [] (m\<lparr>segments := segs\<rparr>) \<and> set [] \<subseteq> {170::nat}"
      by (simp add: run_nil)
    then show ?thesis
      unfolding segments_loop_stop [OF False] by blast
  qed
qed

lemma initialize_run:
  assumes "initialize m = Returned m'"
  shows "\<exists>ls. run m ls m' \<and> set ls \<subseteq> {162, 165, 168, 170}"
proof -
  from initialize_Returned [OF assms] obtain md v
    where md: "metadata m = Some md" "Video md = Some v"
      and m': "m' = m\<lparr>segmentsTimes := (case PktPtsTime v of None \<Rightarrow> [] | Some ts \<Rightarrow> ts),
            playlist := getPlaylist (m\<lparr>segmentsTimes := (case PktPtsTime v of None \<Rightarrow> [] | Some ts \<Rightarrow> ts)\<rparr>),
            segments := segments_loop (length (case PktPtsTime v of None \<Rightarrow> [] | Some ts \<Rightarrow> ts)) 1 Map.empty\<rparr>"
    by blast
  define ts where "ts = (case PktPtsTime v of None \<Rightarrow> [] | Some ts \<Rightarrow> ts)"
  define m1 where "m1 = m\<lparr>segmentsTimes := ts\<rparr>"
  define m2 where "m2 = m1\<lparr>playlist := getPlaylist m1\<rparr>"
  have 1: "run m [162] m1"
    unfolding m1_def by (rule run_single) (rule s162)
  have 2: "run m1 [165] m2"
    unfolding m2_def by (rule run_single) (rule s165)
  have 3: "run m2 [168] (m2\<lparr>segments := Map.empty\<rparr>)"
    by (rule run_single) (rule s168)
  have "\<exists>ls. run (m2\<lparr>segments := Map.empty\<rparr>) ls
               (m2\<lparr>segments := segments_loop (length ts) 1 Map.empty\<rparr>) \<and> set ls \<subseteq> {170}"
    by (rule segments_loop_run) simp
  then obtain ls
    where ls: "run (m2\<lparr>segments := Map.empty\<rparr>) ls (m2\<lparr>segments := segments_loop (length ts) 1 Map.empty\<rparr>)"
      and sub: "set ls \<subseteq> {170}"
    by blast
  have e: "m' = m2\<lparr>segments := segments_loop (length ts) 1 Map.empty\<rparr>"
    by (simp add: m' m2_def m1_def ts_def)
  have "run m ([162] @ [165]) m2"
    using 2 1 by (rule run_trans)
  then have "run m (([162] @ [165]) @ [168]) (m2\<lparr>segments := Map.empty\<rparr>)"
    using 3 by (blast intro: run_trans)
  then have "run m ((([162] @ [165]) @ [168]) @ ls) m'"
    unfolding e using ls by (blast intro: run_trans)
  moreover have "set ((([162] @ [165]) @ [168]) @ ls) \<subseteq> {162, 165, 168, 170}"
    using sub by auto
  ultimately show ?thesis by blast
qed

lemma publish_run:
  assumes "publish m = Returned m'"
  shows "run m [200, 201] m'"
proof -
  obtain c where c: "close_chan (onReadyChange (m\<lparr>ready := True\<rparr>)) = Inr c"
    and m': "m' = m\<lparr>ready := True, onReadyChange := c\<rparr>"
    using assms by (auto simp: publish_def Let_def split: sum.splits)
  have "run m [200] (m\<lparr>ready := True\<rparr>)"
    by (rule run_single) (rule s200)
  then have "run m ([200] @ [201]) (m\<lparr>ready := True, onReadyChange := c\<rparr>)"
    by (rule run_step) (rule s201 [OF c])
  then show ?thesis
    by (simp add: m')
qed

lemma publish_panic_run:
  assumes "publish m = Panicked p m'"
  shows "run m [200] m'"
proof -
  have "m' = m\<lparr>ready := True\<rparr>"
    using assms by (auto simp: publish_def Let_def split: sum.splits)
  then show ?thesis
    by (simp add: run_single s200)
qed

lemma initialize_Panicked: "initialize m = Panicked p m' \<Longrightarrow> m' = m"
  by (auto simp: initialize_def Let_def split: option.splits)

lemma Start_go_run:
  "\<exists>ls. run m ls (state_of (Start_go env m)) \<and> set ls \<subseteq> {84, 101, 162, 165, 168, 170, 200, 201}"
proof -
  obtain e m1 tr where load: "loadMetadata env m = (e, m1, tr)"
    by (cases "loadMetadata env m") auto
  from loadMetadata_run [OF load] obtain l1 where l1: "run m l1 m1" "set l1 \<subseteq> {84, 101}"
    by blast
  show ?thesis
  proof (cases e)
    case (Some err)
    then have "state_of (Start_go env m) = m1"
      using load by (simp add: Start_go_def)
    then show ?thesis
      using l1 by auto
  next
    case None
    show ?thesis
    proof (cases "initialize m1")
      case (Panicked p m2)
      then have "state_of (Start_go env m) = m1"
        using load None initialize_Panicked [OF Panicked] by (simp add: Start_go_def)
      then show ?thesis
        using l1 by auto
    next
      case (Returned m2)
      from initialize_run [OF Returned] obtain l2
        where l2: "run m1 l2 m2" "set l2 \<subseteq> {162, 165, 168, 170}"
        by blast
      have g: "Start_go env m = publish m2"
        using load None Returned by (simp add: Start_go_def)
      have "run m2 [200, 201] (state_of (publish m2)) \<or> run m2 [200] (state_of (publish m2))"
        by (cases "publish m2") (auto intro: publish_run publish_panic_run)
      then obtain l3 where l3: "run m2 l3 (state_of (publish m2))" "set l3 \<subseteq> {200, 201}"
        by fastforce
      have "run m (l1 @ l2) m2"
        using l2(1) l1(1) by (rule run_trans)
      then have "run m ((l1 @ l2) @ l3) (state_of (Start_go env m))"
        unfolding g using l3(1) by (blast intro: run_trans)
      moreover have "set ((l1 @ l2) @ l3) \<subseteq> {84, 101, 162, 165, 168, 170, 200, 201}"
        using l1(2) l2(2) l3(2) by auto
      ultimately show ?thesis by blast
    qed
  qed
qed

lemma reachable_Start_go:
  assumes "reachable m" and "Start_go env m = Returned m'"
  shows "reachable m'"
proof -
  from Start_go_run [of m env] obtain ls where "run m ls (state_of (Start_go env m))"
    by blast
  then have "run m ls m'"
    by (simp add: assms(2))
  then show ?thesis
    using assms(1) by (rule reachable_run)
qed

subsection \<open>The invariant\<close>

lemma step_inv:
  assumes "step m l m'" and "manager_inv m"
  shows "manager_inv m'"
  using assms by (induction rule: step.induct) (auto simp: manager_inv_def split: if_splits)

lemma reachable_inv: "reachable m \<Longrightarrow> manager_inv m"
proof (induction rule: reachable.induct)
  case (r_New c)
  show ?case by (simp add: manager_inv_def New_def)
next
  case (r_step m l m')
  then show ?case by (blast intro: step_inv)
qed

lemma manager_inv_no_key:
  assumes "manager_inv m"
  shows "segments m 0 = None"
proof (cases "segments m 0")
  case None
  then show ?thesis .
next
  case (Some b)
  then have "(1::int) \<le> 0"
    using assms unfolding manager_inv_def by blast
  then show ?thesis by simp
qed

lemma manager_inv_keys:
  assumes "manager_inv m"
  shows "dom (segments m) \<subseteq> {k. 1 \<le> k}"
  using assms unfolding manager_inv_def by blast

lemma manager_inv_never_available:
  assumes "manager_inv m"
  shows "segments m k \<noteq> Some True"
  using assms unfolding manager_inv_def by blast

section \<open>The examples, run\<close>

lemma ex_load:
  "loadMetadata ex_env ex_started =
     (None, ex_started\<lparr>metadata := Some (ex_metadata (map Fin ex_times))\<rparr>,
      [LogInfo ''loading metadata'', CallGetCacheData,
       LogErr ''cache unmarhalling returned error, replacing'',
       LogInfo ''fetching metadata'', CallProbeMedia, LogInfo ''fetched metadata'',
       CallSaveLocalCacheData ex_bytes])"
  by (simp add: loadMetadata_def fetch_and_cache_def fetchMetadata_def ex_env_def ex_started_eq
      New_def ex_config_def ex_metadata_def)

lemma ex_started_fields:
  "onReadyChange ex_started = Some Open" "\<not> ready ex_started" "segments ex_started = Map.empty"
  by (simp_all add: ex_started_eq New_def)

lemma ex_Start_go_state:
  "Start_go ex_env ex_started =
     Returned (ex_started\<lparr>metadata := Some (ex_metadata (map Fin ex_times)),
                 segmentsTimes := map Fin ex_times,
                 playlist := getPlaylist (ex_started\<lparr>metadata := Some (ex_metadata (map Fin ex_times)),
                                                    segmentsTimes := map Fin ex_times\<rparr>),
                 segments := segments_loop (length ex_times) 1 Map.empty,
                 ready := True, onReadyChange := Some Closed\<rparr>)"
  by (simp add: Start_go_def publish_def ex_load initialize_def ex_metadata_def Let_def close_chan_def
      ex_started_fields)

lemma ex_Start_go: "Start_go ex_env ex_started = Returned ex_ready"
  by (simp add: ex_ready_def ex_Start_go_state)

lemma reachable_ex_started: "reachable ex_started"
  using Start_run [OF ex_Start] r_New by (rule reachable_run)

lemma reachable_ex_ready: "reachable ex_ready"
  using reachable_ex_started ex_Start_go by (rule reachable_Start_go)

lemma reachable_ex_stopped: "reachable ex_stopped"
  using Stop_run [OF ex_Stop] reachable_ex_started by (rule reachable_run)

lemma run_ex_assigning: "run ex_started [84, 162] ex_assigning"
proof -
  have "run ex_started [84] (ex_started\<lparr>metadata := Some (ex_metadata (map Fin ex_times))\<rparr>)"
    by (rule run_single) (rule s84)
  moreover have "step (ex_started\<lparr>metadata := Some (ex_metadata (map Fin ex_times))\<rparr>) 162 ex_assigning"
    unfolding ex_assigning_def by (rule s162)
  ultimately have "run ex_started ([84] @ [162]) ex_assigning"
    by (rule run_step)
  then show ?thesis by simp
qed

lemma reachable_ex_assigning: "reachable ex_assigning"
  using run_ex_assigning reachable_ex_started by (rule reachable_run)

lemma ex_assigning_fields:
  "segmentsTimes ex_assigning = map Fin ex_times" "segments ex_assigning = Map.empty"
  "\<not> ready ex_assigning"
  by (simp_all add: ex_assigning_def ex_started_eq New_def)

lemma reachable_ex_loaded: "reachable ex_loaded"
  unfolding ex_loaded_def using r_New s84 by (rule r_step)

lemma ex_loaded_initialize: "initialize ex_loaded = Returned ex_initialized"
  by (simp add: ex_initialized_def initialize_def ex_loaded_def ex_metadata_def Let_def)

lemma ex_ready_fields:
  "ready ex_ready" "segmentsTimes ex_ready = map Fin ex_times"
  "segments ex_ready = segments_loop (length ex_times) 1 Map.empty"
  by (simp_all add: ex_ready_def ex_Start_go_state)

lemma ex_ready_segment_1: "segments ex_ready 1 = Some False"
proof -
  have "segments_loop 3 1 Map.empty = segments_loop 3 (1 + 1) (Map.empty(int 1 \<mapsto> False))"
    by (rule segments_loop_step) simp
  moreover have "segments_loop 3 (1 + 1) (Map.empty(int 1 \<mapsto> False)) 1 = (Map.empty(int 1 \<mapsto> False)) 1"
    by (rule segments_loop_below) simp
  moreover have "length ex_times = 3"
    by (simp add: ex_times_def)
  ultimately show ?thesis
    by (simp add: ex_ready_fields)
qed

section \<open>The segment handler\<close>

text \<open>
  C3: in every state of every execution of a manager, also in the middle of
  \<open>initialize\<close>, and for every request, \<open>ServeMedia\<close> answers \<open>404 index not found\<close>,
  without waiting and after one log line: it looks the constant index 0 up in the segment
  table, and no assignment ever gives the table a key below 1, so the lookup fails and
  neither \<open>os.Stat\<close> nor \<open>http.ServeFile\<close> is reached. The table that a run of
  \<open>initialize\<close> builds has exactly the keys from 1 to \<open>len(segmentsTimes) - 1\<close>.
\<close>

theorem ServeMedia_always_404:
  assumes "reachable m"
  shows "ServeMedia env m = Respond [LogWarn ''media index not found''] (HttpError ''404 index not found'' 404)
         \<and> status (answer (ServeMedia env m) w m') = Some 404
         \<and> segments m 0 = None
         \<and> dom (segments m) \<subseteq> {k. 1 \<le> k}
         \<and> (initialize m = Returned m2 \<longrightarrow>
              dom (segments m2) = {k. 1 \<le> k \<and> k < int (length (segmentsTimes m2))})"
proof -
  have inv: "manager_inv m"
    using assms by (rule reachable_inv)
  then have 0: "segments m 0 = None"
    by (rule manager_inv_no_key)
  have "ServeMedia env m = Respond [LogWarn ''media index not found''] (HttpError ''404 index not found'' 404)"
    using 0 by (rule ServeMedia_no_key)
  moreover from this have "status (answer (ServeMedia env m) w m') = Some 404"
    by (simp add: answer_def)
  moreover have "dom (segments m) \<subseteq> {k. 1 \<le> k}"
    using inv by (rule manager_inv_keys)
  moreover have "initialize m = Returned m2 \<longrightarrow>
      dom (segments m2) = {k. 1 \<le> k \<and> k < int (length (segmentsTimes m2))}"
    using initialize_table by blast
  ultimately show ?thesis
    using 0 by blast
qed

theorem ServeMedia_always_404_witness:
  "reachable ex_ready
   \<and> ServeMedia ex_env ex_ready = Respond [LogWarn ''media index not found''] (HttpError ''404 index not found'' 404)
   \<and> status (answer (ServeMedia ex_env ex_ready) Timeout ex_ready) = Some 404
   \<and> segments ex_ready 0 = None
   \<and> segments ex_ready 1 = Some False
   \<and> reachable ex_assigning
   \<and> segmentsTimes ex_assigning = map Fin ex_times
   \<and> segments ex_assigning = Map.empty
   \<and> ServeMedia ex_env ex_assigning = Respond [LogWarn ''media index not found''] (HttpError ''404 index not found'' 404)
   \<and> reachable ex_loaded
   \<and> initialize ex_loaded = Returned ex_initialized
   \<and> dom (segments ex_initialized) = {k. 1 \<le> k \<and> k < int (length (segmentsTimes ex_initialized))}"
proof -
  note a = ServeMedia_always_404 [OF reachable_ex_ready, of ex_env Timeout ex_ready]
  note b = ServeMedia_always_404 [OF reachable_ex_assigning, of ex_env Timeout ex_ready]
  note c = ServeMedia_always_404 [OF reachable_ex_loaded, of ex_env Timeout ex_ready ex_initialized]
  have 1: "ServeMedia ex_env ex_ready =
      Respond [LogWarn ''media index not found''] (HttpError ''404 index not found'' 404)"
    using a by (rule conjunct1)
  have 2: "status (answer (ServeMedia ex_env ex_ready) Timeout ex_ready) = Some 404"
    using a [THEN conjunct2] by (rule conjunct1)
  have 3: "segments ex_ready 0 = None"
    using a [THEN conjunct2, THEN conjunct2] by (rule conjunct1)
  have 4: "ServeMedia ex_env ex_assigning =
      Respond [LogWarn ''media index not found''] (HttpError ''404 index not found'' 404)"
    using b by (rule conjunct1)
  have 5: "dom (segments ex_initialized) = {k. 1 \<le> k \<and> k < int (length (segmentsTimes ex_initialized))}"
    using c [THEN conjunct2, THEN conjunct2, THEN conjunct2, THEN conjunct2, rule_format,
        OF ex_loaded_initialize] .
  show ?thesis
    by (intro conjI reachable_ex_ready 1 2 3 ex_ready_segment_1 reachable_ex_assigning
        ex_assigning_fields(1,2) 4 reachable_ex_loaded ex_loaded_initialize 5)
qed

text \<open>
  C5 asks that both handlers, while \<open>ready\<close> is false, block before they touch the
  playlist, the segment table or the metadata. \<open>ServePlaylist\<close> does (lemma
  \<open>ServePlaylist_blocks\<close> below); \<open>ServeMedia\<close> has no such gate. On a manager that
  \<open>Start\<close> has just left, with \<open>ready\<close> false and the initialization pending, it reads
  \<open>m.segments[0]\<close> and answers 404 at once; it blocks in no state of the manager.
\<close>

theorem ServeMedia_no_readiness_gate:
  "\<not> ready (fst (snd (Start (New c))))
   \<and> ServeMedia env (fst (snd (Start (New c)))) =
       Respond [LogWarn ''media index not found''] (HttpError ''404 index not found'' 404)
   \<and> \<not> blocks (ServeMedia env m)"
proof -
  have "\<not> blocks (ServeMedia env m)"
    by (simp add: ServeMedia_def Let_def split: option.splits)
  moreover have "segments (fst (snd (Start (New c)))) 0 = None"
    by (simp add: Start_def New_def)
  moreover have "\<not> ready (fst (snd (Start (New c))))"
    by (simp add: Start_def New_def)
  ultimately show ?thesis
    by (simp add: ServeMedia_no_key)
qed

lemma ServePlaylist_blocks: "blocks (ServePlaylist m) \<longleftrightarrow> \<not> ready m"
  by (simp add: ServePlaylist_def)

section \<open>Initialization\<close>



lemma Start_gate:
  assumes "Start m = (None, m1, b)"
  shows "\<not> ready m1 \<and> onReadyChange m1 = Some Open \<and> shutdown m1 = Some Open"
  using assms by (auto simp: Start_def split: if_splits)

lemma Start_go_failed_load:
  assumes "loadMetadata env m = (Some err, m', tr)"
  shows "Start_go env m = Returned m'"
  using assms by (simp add: Start_go_def)


lemma ex_load_failing:
  "loadMetadata ex_env_failing ex_started =
     (Some (Error False ''unable probe media for metadata: exit status 1''), ex_started,
      [LogInfo ''loading metadata'', CallGetCacheData, LogInfo ''fetching metadata'', CallProbeMedia])"
  by (simp add: loadMetadata_def fetch_and_cache_def fetchMetadata_def ex_env_failing_def
      ex_env_missing_def ex_env_def ex_started_eq New_def ex_config_def Errorf_v_def)



subsection \<open>Two starts and one failure\<close>


















section \<open>The playlist handler\<close>

lemma ex_stopped_not_ready: "\<not> ready ex_stopped"
proof -
  from Stop_Returned [OF ex_Stop]
  have e: "ex_stopped = ex_started\<lparr>cancelled := True, shutdown := Some Closed, ready := False\<rparr>"
    by (rule conjunct2)
  show ?thesis
    by (subst e) simp
qed

lemma ex_started_not_ready: "\<not> ready ex_started"
  by (simp add: ex_started_eq)

lemma ex_started_channels:
  "onReadyChange ex_started = Some Open" "shutdown ex_started = Some Open"
  by (simp_all add: ex_started_eq)

lemma ex_stopped_shutdown: "shutdown ex_stopped = Some Closed"
proof -
  from Stop_Returned [OF ex_Stop]
  have e: "ex_stopped = ex_started\<lparr>cancelled := True, shutdown := Some Closed, ready := False\<rparr>"
    by (rule conjunct2)
  show ?thesis
    by (subst e) simp
qed

text \<open>
  C8, as the specification words it, fails: after a failed initialization the status is
  504, not 500. On the example manager, started, whose probe fails: the goroutine returns
  and leaves \<open>ready\<close> false and both channels open, so of the three cases of the
  \<open>select\<close> of a waiting playlist request neither the readiness event nor the shutdown
  signal can proceed; the timeout does, and the handler answers \<open>504 playlist timeout\<close>
  with status 504.
\<close>

theorem failed_initialization_504_counterexample:
  "Start (New ex_config) = (None, ex_started, True)
   \<and> loadMetadata ex_env_failing ex_started =
       (Some (Error False ''unable probe media for metadata: exit status 1''), ex_started,
        [LogInfo ''loading metadata'', CallGetCacheData, LogInfo ''fetching metadata'', CallProbeMedia])
   \<and> Start_go ex_env_failing ex_started = Returned ex_started
   \<and> \<not> ready ex_started
   \<and> blocks (ServePlaylist ex_started)
   \<and> \<not> may_wake ex_started ReadyChange
   \<and> \<not> may_wake ex_started Shutdown
   \<and> may_wake ex_started Timeout
   \<and> answer (ServePlaylist ex_started) Timeout ex_started = HttpError ''504 playlist timeout'' 504
   \<and> status (answer (ServePlaylist ex_started) Timeout ex_started) = Some 504"
  using ex_Start ex_load_failing Start_go_failed_load [OF ex_load_failing] ex_started_not_ready
  by (simp add: ex_started_channels ServePlaylist_def answer_def StatusGatewayTimeout_def)

text \<open>
  C8, amended: the status of the playlist endpoint. When \<open>ready\<close> holds at the request,
  the handler answers at once with 200, the content type of a playlist and \<open>m.playlist\<close>.
  When it does not, the handler waits, and then: if the readiness event wakes it and
  \<open>ready\<close> holds, it answers 200 with the playlist as it is then; if the readiness event
  wakes it and \<open>ready\<close> does not hold, 500; if the shutdown signal wakes it, 500; if the
  timeout does, 504. After a failed initialization (\<open>loadMetadata\<close> returned an error)
  on the manager as \<open>Start\<close> left it, the only case that can proceed is the timeout, so
  the status is 504. After a \<open>Stop\<close> that returns, the
  shutdown signal can proceed and \<open>ready\<close> is false, so a request that waits is answered
  500 by whichever of the two channels wakes it.
\<close>

theorem playlist_status_by_case:
  "(ready m \<longrightarrow>
      ServePlaylist m = Respond [] (Written [(''Content-Type'', ''application/vnd.apple.mpegurl'')] (playlist m))
      \<and> status (answer (ServePlaylist m) w m') = Some 200)
   \<and> (\<not> ready m \<longrightarrow>
        blocks (ServePlaylist m)
        \<and> (ready m' \<longrightarrow>
             answer (ServePlaylist m) ReadyChange m' =
               Written [(''Content-Type'', ''application/vnd.apple.mpegurl'')] (playlist m')
             \<and> status (answer (ServePlaylist m) ReadyChange m') = Some 200)
        \<and> (\<not> ready m' \<longrightarrow> status (answer (ServePlaylist m) ReadyChange m') = Some 500)
        \<and> status (answer (ServePlaylist m) Shutdown m') = Some 500
        \<and> status (answer (ServePlaylist m) Timeout m') = Some 504)
   \<and> (Start m0 = (None, m1, True)
        \<and> loadMetadata env m1 = (Some err, m2, tr)
        \<and> may_wake m2 v
      \<longrightarrow> Start_go env m1 = Returned m2
          \<and> \<not> ready m2
          \<and> blocks (ServePlaylist m2)
          \<and> v = Timeout
          \<and> status (answer (ServePlaylist m2) v m2) = Some 504)
   \<and> (\<not> ready m \<and> Stop m4 = Returned m5
      \<longrightarrow> \<not> ready m5
          \<and> may_wake m5 Shutdown
          \<and> status (answer (ServePlaylist m) Shutdown m5) = Some 500
          \<and> status (answer (ServePlaylist m) ReadyChange m5) = Some 500)"
proof -
  have cases: "(ready m \<longrightarrow>
      ServePlaylist m = Respond [] (Written [(''Content-Type'', ''application/vnd.apple.mpegurl'')] (playlist m))
      \<and> status (answer (ServePlaylist m) w m') = Some 200)
   \<and> (\<not> ready m \<longrightarrow>
        blocks (ServePlaylist m)
        \<and> (ready m' \<longrightarrow>
             answer (ServePlaylist m) ReadyChange m' =
               Written [(''Content-Type'', ''application/vnd.apple.mpegurl'')] (playlist m')
             \<and> status (answer (ServePlaylist m) ReadyChange m') = Some 200)
        \<and> (\<not> ready m' \<longrightarrow> status (answer (ServePlaylist m) ReadyChange m') = Some 500)
        \<and> status (answer (ServePlaylist m) Shutdown m') = Some 500
        \<and> status (answer (ServePlaylist m) Timeout m') = Some 504)"
    by (simp add: ServePlaylist_def answer_def write_playlist_def StatusOK_def
        StatusInternalServerError_def StatusGatewayTimeout_def)
  have failed: "Start_go env m1 = Returned m2 \<and> \<not> ready m2 \<and> blocks (ServePlaylist m2)
      \<and> v = Timeout \<and> status (answer (ServePlaylist m2) v m2) = Some 504"
    if s: "Start m0 = (None, m1, True)"
      and f: "loadMetadata env m1 = (Some err, m2, tr)"
      and v: "may_wake m2 v"
  proof -
    from loadMetadata_frame [OF f] obtain md where m2: "m2 = m1\<lparr>metadata := md\<rparr>"
      by blast
    have g: "\<not> ready m2" "onReadyChange m2 = Some Open" "shutdown m2 = Some Open"
      using Start_gate [OF s] by (simp_all add: m2)
    have "Start_go env m1 = Returned m2"
      using f by (rule Start_go_failed_load)
    moreover have "v = Timeout"
      using v g by (cases v) simp_all
    moreover have "status (answer (ServePlaylist m2) Timeout m2) = Some 504"
      using g(1) by (simp add: ServePlaylist_def answer_def StatusGatewayTimeout_def)
    moreover have "blocks (ServePlaylist m2)"
      using g(1) by (simp add: ServePlaylist_def)
    ultimately show ?thesis
      using g(1) by simp
  qed
  have stopped: "\<not> ready m5 \<and> may_wake m5 Shutdown
      \<and> status (answer (ServePlaylist m) Shutdown m5) = Some 500
      \<and> status (answer (ServePlaylist m) ReadyChange m5) = Some 500"
    if n: "\<not> ready m" and s: "Stop m4 = Returned m5"
  proof -
    from Stop_Returned [OF s]
    have m5: "m5 = m4\<lparr>cancelled := True, shutdown := Some Closed, ready := False\<rparr>"
      by (rule conjunct2)
    show ?thesis
      using n by (simp add: m5 ServePlaylist_def answer_def StatusInternalServerError_def)
  qed
  show ?thesis
    using cases failed stopped by blast
qed

theorem playlist_status_by_case_witness:
  "ready ex_ready
   \<and> ServePlaylist ex_ready =
       Respond [] (Written [(''Content-Type'', ''application/vnd.apple.mpegurl'')] (playlist ex_ready))
   \<and> status (answer (ServePlaylist ex_ready) Timeout ex_ready) = Some 200
   \<and> \<not> ready ex_started
   \<and> blocks (ServePlaylist ex_started)
   \<and> answer (ServePlaylist ex_started) ReadyChange ex_ready =
       Written [(''Content-Type'', ''application/vnd.apple.mpegurl'')] (playlist ex_ready)
   \<and> status (answer (ServePlaylist ex_started) ReadyChange ex_ready) = Some 200
   \<and> Start (New ex_config) = (None, ex_started, True)
   \<and> loadMetadata ex_env_failing ex_started =
       (Some (Error False ''unable probe media for metadata: exit status 1''), ex_started,
        [LogInfo ''loading metadata'', CallGetCacheData, LogInfo ''fetching metadata'', CallProbeMedia])
   \<and> may_wake ex_started Timeout
   \<and> Start_go ex_env_failing ex_started = Returned ex_started
   \<and> status (answer (ServePlaylist ex_started) Timeout ex_started) = Some 504
   \<and> Stop ex_started = Returned ex_stopped
   \<and> \<not> ready ex_stopped
   \<and> may_wake ex_stopped Shutdown
   \<and> status (answer (ServePlaylist ex_started) Shutdown ex_stopped) = Some 500
   \<and> status (answer (ServePlaylist ex_started) ReadyChange ex_stopped) = Some 500"
proof -
  have t: "may_wake ex_started Timeout"
    by simp
  note a = playlist_status_by_case [of ex_ready Timeout ex_ready]
  note b = playlist_status_by_case [of ex_started Timeout ex_ready]
  note c = playlist_status_by_case [of ex_started Timeout ex_started "New ex_config" ex_started
      ex_env_failing "Error False ''unable probe media for metadata: exit status 1''" ex_started
      "[LogInfo ''loading metadata'', CallGetCacheData, LogInfo ''fetching metadata'', CallProbeMedia]"
      Timeout ex_started ex_stopped]
  have 1: "ServePlaylist ex_ready =
       Respond [] (Written [(''Content-Type'', ''application/vnd.apple.mpegurl'')] (playlist ex_ready))
     \<and> status (answer (ServePlaylist ex_ready) Timeout ex_ready) = Some 200"
    using a ex_ready_fields(1) by blast
  have 2: "blocks (ServePlaylist ex_started)
     \<and> answer (ServePlaylist ex_started) ReadyChange ex_ready =
       Written [(''Content-Type'', ''application/vnd.apple.mpegurl'')] (playlist ex_ready)
     \<and> status (answer (ServePlaylist ex_started) ReadyChange ex_ready) = Some 200"
    using b ex_ready_fields(1) ex_started_not_ready by blast
  have 3: "Start_go ex_env_failing ex_started = Returned ex_started
     \<and> status (answer (ServePlaylist ex_started) Timeout ex_started) = Some 504"
    using c ex_Start ex_load_failing t by blast
  have 4: "\<not> ready ex_stopped \<and> may_wake ex_stopped Shutdown
     \<and> status (answer (ServePlaylist ex_started) Shutdown ex_stopped) = Some 500
     \<and> status (answer (ServePlaylist ex_started) ReadyChange ex_stopped) = Some 500"
    using c ex_started_not_ready ex_Stop by blast
  show ?thesis
    using 1 2 3 4 ex_ready_fields(1) ex_started_not_ready ex_Start ex_load_failing t ex_Stop
    by blast
qed

section \<open>The metadata cache\<close>

lemma probed_metadata: "probed env (m\<lparr>metadata := old\<rparr>) = probed env m"
  by (simp add: probed_def split: sum.splits option.splits)

lemma probe_calls_metadata: "probe_calls env (m\<lparr>metadata := old\<rparr>) = probe_calls env m"
  by (simp add: probe_calls_def split: sum.splits option.splits)

text \<open>When the probes succeed, so does \<open>fetchMetadata\<close>, and it stores their result.\<close>

lemma fetchMetadata_probed:
  assumes "probed env m = Some md"
  shows "fetchMetadata env m =
           (None, m\<lparr>metadata := Some md\<rparr>,
            [LogInfo ''fetching metadata''] @ probe_calls env m @ [LogInfo ''fetched metadata''])"
  using assms unfolding fetchMetadata_def probed_def probe_calls_def
  by (auto split: sum.splits option.splits if_splits)

lemma fetch_and_cache_probed:
  assumes "probed env m0 = Some md"
    and "Marshal env (Some md) = Inr bytes"
    and "(if CacheDir (config m0) \<noteq> [] then saveGlobalCacheData env (m0\<lparr>metadata := Some md\<rparr>) bytes
          else saveLocalCacheData env (m0\<lparr>metadata := Some md\<rparr>) bytes) = None"
  shows "fetch_and_cache env m0 pre =
           (None, m0\<lparr>metadata := Some md\<rparr>,
            pre @ [LogInfo ''fetching metadata''] @ probe_calls env m0
            @ [LogInfo ''fetched metadata'',
               if CacheDir (config m0) \<noteq> [] then CallSaveGlobalCacheData bytes
               else CallSaveLocalCacheData bytes])"
  using assms(2,3) by (simp add: fetch_and_cache_def fetchMetadata_probed [OF assms(1)] split: if_splits)

text \<open>
  C7: with caching enabled, let the probes succeed (the fast probe, and the full-scan
  probe where it is needed), let their result serialize and the cache accept the write.
  When the cache read succeeds and the entry fails to deserialize, or when the cache read
  fails with "not found", \<open>loadMetadata\<close> goes on to a fresh probe and succeeds; the
  manager then holds the freshly probed metadata, and the last call is the write of the
  serialized result: \<open>saveGlobalCacheData\<close> when \<open>CacheDir\<close> is not empty,
  \<open>saveLocalCacheData\<close> otherwise. In the first case one error line is logged, about the
  deserialization; in the "not found" case none.
\<close>

theorem loadMetadata_cache_fallback:
  assumes "Cache (config m)"
    and "probed env m = Some md"
    and "Marshal env (Some md) = Inr bytes"
    and "(if CacheDir (config m) \<noteq> [] then saveGlobalCacheData env (m\<lparr>metadata := Some md\<rparr>) bytes
          else saveLocalCacheData env (m\<lparr>metadata := Some md\<rparr>) bytes) = None"
  shows "(getCacheData env m = Inr data
          \<and> Unmarshal env data (metadata m) = (Some uerr, old)
          \<longrightarrow> loadMetadata env m =
                (None, m\<lparr>metadata := Some md\<rparr>,
                 [LogInfo ''loading metadata'', CallGetCacheData,
                  LogErr ''cache unmarhalling returned error, replacing'',
                  LogInfo ''fetching metadata'']
                 @ probe_calls env m
                 @ [LogInfo ''fetched metadata'',
                    if CacheDir (config m) \<noteq> [] then CallSaveGlobalCacheData bytes
                    else CallSaveLocalCacheData bytes]))
       \<and> (getCacheData env m = Inl nerr
          \<and> is_not_exist nerr
          \<longrightarrow> loadMetadata env m =
                (None, m\<lparr>metadata := Some md\<rparr>,
                 [LogInfo ''loading metadata'', CallGetCacheData, LogInfo ''fetching metadata'']
                 @ probe_calls env m
                 @ [LogInfo ''fetched metadata'',
                    if CacheDir (config m) \<noteq> [] then CallSaveGlobalCacheData bytes
                    else CallSaveLocalCacheData bytes]))"
proof (intro conjI impI)
  assume h: "getCacheData env m = Inr data \<and> Unmarshal env data (metadata m) = (Some uerr, old)"
  have p: "probed env (m\<lparr>metadata := old\<rparr>) = Some md"
    using assms(2) by (simp add: probed_metadata)
  have sv: "(if CacheDir (config (m\<lparr>metadata := old\<rparr>)) \<noteq> []
             then saveGlobalCacheData env (m\<lparr>metadata := old\<rparr>\<lparr>metadata := Some md\<rparr>) bytes
             else saveLocalCacheData env (m\<lparr>metadata := old\<rparr>\<lparr>metadata := Some md\<rparr>) bytes) = None"
    using assms(4) by (cases "CacheDir (config m) = []") simp_all
  have "loadMetadata env m =
          fetch_and_cache env (m\<lparr>metadata := old\<rparr>)
            [LogInfo ''loading metadata'', CallGetCacheData,
             LogErr ''cache unmarhalling returned error, replacing'']"
    using assms(1) h by (simp add: loadMetadata_def)
  then show "loadMetadata env m =
                (None, m\<lparr>metadata := Some md\<rparr>,
                 [LogInfo ''loading metadata'', CallGetCacheData,
                  LogErr ''cache unmarhalling returned error, replacing'',
                  LogInfo ''fetching metadata'']
                 @ probe_calls env m
                 @ [LogInfo ''fetched metadata'',
                    if CacheDir (config m) \<noteq> [] then CallSaveGlobalCacheData bytes
                    else CallSaveLocalCacheData bytes])"
    using fetch_and_cache_probed [OF p assms(3) sv] by (simp add: probe_calls_metadata)
next
  assume h: "getCacheData env m = Inl nerr \<and> is_not_exist nerr"
  have "loadMetadata env m =
          fetch_and_cache env m [LogInfo ''loading metadata'', CallGetCacheData]"
    using assms(1) h by (simp add: loadMetadata_def)
  then show "loadMetadata env m =
                (None, m\<lparr>metadata := Some md\<rparr>,
                 [LogInfo ''loading metadata'', CallGetCacheData, LogInfo ''fetching metadata'']
                 @ probe_calls env m
                 @ [LogInfo ''fetched metadata'',
                    if CacheDir (config m) \<noteq> [] then CallSaveGlobalCacheData bytes
                    else CallSaveLocalCacheData bytes])"
    using fetch_and_cache_probed [OF assms(2) assms(3) assms(4)] by simp
qed

lemma ex_probed: "probed ex_env ex_started = Some (ex_metadata (map Fin ex_times))"
  by (simp add: probed_def ex_env_def ex_metadata_def)

lemma ex_probe_calls: "probe_calls ex_env ex_started = [CallProbeMedia]"
  by (simp add: probe_calls_def ex_env_def ex_metadata_def)

lemma ex_probed_shared: "probed ex_env_shared ex_shared = Some (ex_metadata (map Fin ex_times))"
  by (simp add: probed_def ex_env_shared_def ex_env_missing_def ex_env_def ex_metadata_def)

lemma ex_probe_calls_shared: "probe_calls ex_env_shared ex_shared = [CallProbeMedia]"
  by (simp add: probe_calls_def ex_env_shared_def ex_env_missing_def ex_env_def ex_metadata_def)

lemma ex_probed_scan: "probed ex_env_scan ex_started = Some (ex_metadata (map Fin ex_times))"
  by (simp add: probed_def ex_env_scan_def ex_env_missing_def ex_env_def ex_metadata_def)

lemma ex_probe_calls_scan: "probe_calls ex_env_scan ex_started = [CallProbeMedia, CallProbeVideo]"
  by (simp add: probe_calls_def ex_env_scan_def ex_env_missing_def ex_env_def)

theorem loadMetadata_cache_fallback_witness:
  "Cache (config ex_started)
   \<and> getCacheData ex_env ex_started = Inr ex_truncated
   \<and> Unmarshal ex_env ex_truncated (metadata ex_started) =
       (Some (Error False ''unexpected end of JSON input''), None)
   \<and> CacheDir (config ex_started) = []
   \<and> probed ex_env ex_started = Some (ex_metadata (map Fin ex_times))
   \<and> loadMetadata ex_env ex_started =
       (None, ex_started\<lparr>metadata := Some (ex_metadata (map Fin ex_times))\<rparr>,
        [LogInfo ''loading metadata'', CallGetCacheData,
         LogErr ''cache unmarhalling returned error, replacing'',
         LogInfo ''fetching metadata'', CallProbeMedia, LogInfo ''fetched metadata'',
         CallSaveLocalCacheData ex_bytes])
   \<and> Cache (config ex_shared)
   \<and> getCacheData ex_env_shared ex_shared = Inl (Error True ''no such file or directory'')
   \<and> CacheDir (config ex_shared) = ''/var/cache/hlsvod''
   \<and> probed ex_env_shared ex_shared = Some (ex_metadata (map Fin ex_times))
   \<and> loadMetadata ex_env_shared ex_shared =
       (None, ex_shared\<lparr>metadata := Some (ex_metadata (map Fin ex_times))\<rparr>,
        [LogInfo ''loading metadata'', CallGetCacheData,
         LogInfo ''fetching metadata'', CallProbeMedia, LogInfo ''fetched metadata'',
         CallSaveGlobalCacheData ex_bytes])
   \<and> getCacheData ex_env_scan ex_started = Inl (Error True ''no such file or directory'')
   \<and> probed ex_env_scan ex_started = Some (ex_metadata (map Fin ex_times))
   \<and> loadMetadata ex_env_scan ex_started =
       (None, ex_started\<lparr>metadata := Some (ex_metadata (map Fin ex_times))\<rparr>,
        [LogInfo ''loading metadata'', CallGetCacheData,
         LogInfo ''fetching metadata'', CallProbeMedia, CallProbeVideo, LogInfo ''fetched metadata'',
         CallSaveLocalCacheData ex_bytes])"
proof -
  have c1: "Cache (config ex_started)" and d1: "CacheDir (config ex_started) = []"
    and md1: "metadata ex_started = None"
    by (simp_all add: ex_started_eq New_def ex_config_def)
  have g1: "getCacheData ex_env ex_started = Inr ex_truncated"
    and u1: "Unmarshal ex_env ex_truncated (metadata ex_started) =
               (Some (Error False ''unexpected end of JSON input''), None)"
    by (simp_all add: ex_env_def md1)
  have m1: "Marshal ex_env (Some (ex_metadata (map Fin ex_times))) = Inr ex_bytes"
    by (simp add: ex_env_def)
  have s1: "(if CacheDir (config ex_started) \<noteq> []
             then saveGlobalCacheData ex_env (ex_started\<lparr>metadata := Some (ex_metadata (map Fin ex_times))\<rparr>) ex_bytes
             else saveLocalCacheData ex_env (ex_started\<lparr>metadata := Some (ex_metadata (map Fin ex_times))\<rparr>) ex_bytes) = None"
    by (simp add: d1 ex_env_def)
  have c2: "Cache (config ex_shared)" and d2: "CacheDir (config ex_shared) = ''/var/cache/hlsvod''"
    by (simp_all add: ex_shared_def New_def ex_config_def)
  have g2: "getCacheData ex_env_shared ex_shared = Inl (Error True ''no such file or directory'')"
    by (simp add: ex_env_shared_def ex_env_missing_def)
  have n2: "is_not_exist (Error True ''no such file or directory'')"
    by simp
  have m2: "Marshal ex_env_shared (Some (ex_metadata (map Fin ex_times))) = Inr ex_bytes"
    by (simp add: ex_env_shared_def ex_env_missing_def ex_env_def)
  have s2: "(if CacheDir (config ex_shared) \<noteq> []
             then saveGlobalCacheData ex_env_shared (ex_shared\<lparr>metadata := Some (ex_metadata (map Fin ex_times))\<rparr>) ex_bytes
             else saveLocalCacheData ex_env_shared (ex_shared\<lparr>metadata := Some (ex_metadata (map Fin ex_times))\<rparr>) ex_bytes) = None"
    by (simp add: d2 ex_env_shared_def)
  have g3: "getCacheData ex_env_scan ex_started = Inl (Error True ''no such file or directory'')"
    by (simp add: ex_env_scan_def ex_env_missing_def)
  have m3: "Marshal ex_env_scan (Some (ex_metadata (map Fin ex_times))) = Inr ex_bytes"
    by (simp add: ex_env_scan_def ex_env_missing_def ex_env_def)
  have s3: "(if CacheDir (config ex_started) \<noteq> []
             then saveGlobalCacheData ex_env_scan (ex_started\<lparr>metadata := Some (ex_metadata (map Fin ex_times))\<rparr>) ex_bytes
             else saveLocalCacheData ex_env_scan (ex_started\<lparr>metadata := Some (ex_metadata (map Fin ex_times))\<rparr>) ex_bytes) = None"
    by (simp add: d1 ex_env_scan_def ex_env_missing_def ex_env_def)
  from loadMetadata_cache_fallback [OF c1 ex_probed m1 s1, THEN conjunct1, rule_format,
      OF conjI [OF g1 u1]]
  have r1: "loadMetadata ex_env ex_started =
       (None, ex_started\<lparr>metadata := Some (ex_metadata (map Fin ex_times))\<rparr>,
        [LogInfo ''loading metadata'', CallGetCacheData,
         LogErr ''cache unmarhalling returned error, replacing'',
         LogInfo ''fetching metadata'', CallProbeMedia, LogInfo ''fetched metadata'',
         CallSaveLocalCacheData ex_bytes])"
    by (simp add: d1 ex_probe_calls)
  from loadMetadata_cache_fallback [OF c2 ex_probed_shared m2 s2, THEN conjunct2, rule_format,
      OF conjI [OF g2 n2]]
  have r2: "loadMetadata ex_env_shared ex_shared =
       (None, ex_shared\<lparr>metadata := Some (ex_metadata (map Fin ex_times))\<rparr>,
        [LogInfo ''loading metadata'', CallGetCacheData,
         LogInfo ''fetching metadata'', CallProbeMedia, LogInfo ''fetched metadata'',
         CallSaveGlobalCacheData ex_bytes])"
    by (simp add: d2 ex_probe_calls_shared)
  from loadMetadata_cache_fallback [OF c1 ex_probed_scan m3 s3, THEN conjunct2, rule_format,
      OF conjI [OF g3 n2]]
  have r3: "loadMetadata ex_env_scan ex_started =
       (None, ex_started\<lparr>metadata := Some (ex_metadata (map Fin ex_times))\<rparr>,
        [LogInfo ''loading metadata'', CallGetCacheData,
         LogInfo ''fetching metadata'', CallProbeMedia, CallProbeVideo, LogInfo ''fetched metadata'',
         CallSaveLocalCacheData ex_bytes])"
    by (simp add: d1 ex_probe_calls_scan)
  show ?thesis
    using c1 g1 u1 d1 ex_probed r1 c2 g2 d2 ex_probed_shared r2 g3 ex_probed_scan r3 by blast
qed

section \<open>The planner\<close>

lemma getPlaylist_cong:
  assumes "segmentsTimes a = segmentsTimes b" and "segmentDuration a = segmentDuration b"
    and "SegmentPrefix (config a) = SegmentPrefix (config b)" and "segmentSuffix a = segmentSuffix b"
  shows "getPlaylist a = getPlaylist b"
  using assms by (simp add: getPlaylist_def getPlaylist_lines_eq getSegmentName_def)

lemma initialize_eq:
  assumes "metadata m = Some md" and "Video md = Some v"
  shows "initialize m =
     Returned (m\<lparr>segmentsTimes := (case PktPtsTime v of None \<Rightarrow> [] | Some ts \<Rightarrow> ts),
                 playlist := getPlaylist (m\<lparr>segmentsTimes := (case PktPtsTime v of None \<Rightarrow> [] | Some ts \<Rightarrow> ts)\<rparr>),
                 segments := segments_loop (length (case PktPtsTime v of None \<Rightarrow> [] | Some ts \<Rightarrow> ts)) 1 Map.empty\<rparr>)"
  using assms by (simp add: initialize_def Let_def)

text \<open>
  C9: the playlist is a function of the segment boundaries, the nominal duration and the
  naming of the segments only. Two runs of the planner, on managers that hold the same
  metadata and have the same prefix, suffix and nominal duration, in whatever state the
  managers are otherwise, write the same playlist text; generating the playlist again
  from an initialized manager gives the text it holds; and a second run of \<open>initialize\<close>
  leaves the manager as the first left it. (\<open>getPlaylist\<close> returns the text and assigns no
  field.)
\<close>

theorem planner_deterministic:
  assumes "metadata a = metadata b"
    and "SegmentPrefix (config a) = SegmentPrefix (config b)"
    and "segmentDuration a = segmentDuration b"
    and "segmentSuffix a = segmentSuffix b"
    and "initialize a = Returned a'"
    and "initialize b = Returned b'"
  shows "playlist a' = playlist b'
         \<and> getPlaylist a' = playlist a'
         \<and> getPlaylist b' = playlist b'
         \<and> initialize a' = Returned a'"
proof -
  from initialize_Returned [OF assms(5)] obtain md v
    where a: "metadata a = Some md" "Video md = Some v"
      and a': "a' = a\<lparr>segmentsTimes := (case PktPtsTime v of None \<Rightarrow> [] | Some ts \<Rightarrow> ts),
            playlist := getPlaylist (a\<lparr>segmentsTimes := (case PktPtsTime v of None \<Rightarrow> [] | Some ts \<Rightarrow> ts)\<rparr>),
            segments := segments_loop (length (case PktPtsTime v of None \<Rightarrow> [] | Some ts \<Rightarrow> ts)) 1 Map.empty\<rparr>"
    by blast
  define ts where "ts = (case PktPtsTime v of None \<Rightarrow> [] | Some ts \<Rightarrow> ts)"
  have b: "metadata b = Some md"
    using a(1) assms(1) by simp
  have b': "b' = b\<lparr>segmentsTimes := ts, playlist := getPlaylist (b\<lparr>segmentsTimes := ts\<rparr>),
                    segments := segments_loop (length ts) 1 Map.empty\<rparr>"
    using initialize_eq [OF b a(2)] assms(6) by (simp add: ts_def)
  have a'': "a' = a\<lparr>segmentsTimes := ts, playlist := getPlaylist (a\<lparr>segmentsTimes := ts\<rparr>),
                    segments := segments_loop (length ts) 1 Map.empty\<rparr>"
    using a' by (simp add: ts_def)
  have ab: "getPlaylist (a\<lparr>segmentsTimes := ts\<rparr>) = getPlaylist (b\<lparr>segmentsTimes := ts\<rparr>)"
    using assms(2-4) by (intro getPlaylist_cong) simp_all
  have ga: "getPlaylist a' = getPlaylist (a\<lparr>segmentsTimes := ts\<rparr>)"
    unfolding a'' by (intro getPlaylist_cong) simp_all
  have gb: "getPlaylist b' = getPlaylist (b\<lparr>segmentsTimes := ts\<rparr>)"
    unfolding b' by (intro getPlaylist_cong) simp_all
  have pa: "playlist a' = getPlaylist (a\<lparr>segmentsTimes := ts\<rparr>)"
    by (simp add: a'')
  have pb: "playlist b' = getPlaylist (b\<lparr>segmentsTimes := ts\<rparr>)"
    by (simp add: b')
  have ma': "metadata a' = Some md"
    using a(1) by (simp add: a'')
  have "getPlaylist (a'\<lparr>segmentsTimes := ts\<rparr>) = getPlaylist (a\<lparr>segmentsTimes := ts\<rparr>)"
    unfolding a'' by (intro getPlaylist_cong) simp_all
  then have "initialize a' = Returned a'"
    using initialize_eq [OF ma' a(2)] by (simp add: ts_def [symmetric] a'')
  then show ?thesis
    using ab ga gb pa pb by simp
qed

lemma ex_initialize: "initialize ex_loaded = Returned ex_initialized"
  by (simp add: ex_initialized_def initialize_def ex_loaded_def ex_metadata_def Let_def)

lemma ex_initialize_other: "initialize ex_loaded_other = Returned ex_initialized_other"
  by (simp add: ex_initialized_other_def initialize_def ex_loaded_other_def ex_loaded_def
      ex_metadata_def Let_def)

theorem planner_deterministic_witness:
  "metadata ex_loaded = metadata ex_loaded_other
   \<and> SegmentPrefix (config ex_loaded) = SegmentPrefix (config ex_loaded_other)
   \<and> segmentDuration ex_loaded = segmentDuration ex_loaded_other
   \<and> segmentSuffix ex_loaded = segmentSuffix ex_loaded_other
   \<and> ready ex_loaded \<noteq> ready ex_loaded_other
   \<and> initialize ex_loaded = Returned ex_initialized
   \<and> initialize ex_loaded_other = Returned ex_initialized_other
   \<and> playlist ex_initialized = playlist ex_initialized_other
   \<and> getPlaylist ex_initialized = playlist ex_initialized
   \<and> getPlaylist ex_initialized_other = playlist ex_initialized_other
   \<and> initialize ex_initialized = Returned ex_initialized"
proof -
  have 1: "metadata ex_loaded = metadata ex_loaded_other"
    and 2: "SegmentPrefix (config ex_loaded) = SegmentPrefix (config ex_loaded_other)"
    and 3: "segmentDuration ex_loaded = segmentDuration ex_loaded_other"
    and 4: "segmentSuffix ex_loaded = segmentSuffix ex_loaded_other"
    and 5: "ready ex_loaded \<noteq> ready ex_loaded_other"
    by (simp_all add: ex_loaded_other_def ex_loaded_def New_def)
  show ?thesis
    using 1 2 3 4 5 ex_initialize ex_initialize_other
      planner_deterministic [OF 1 2 3 4 ex_initialize ex_initialize_other]
    by blast
qed

section \<open>Requests for segments\<close>

text \<open>
  C10, as the specification words it, fails. On the example manager, ready, with the
  segments 1 and 2 in its table and not available, three requests to the segment handler
  get \<open>404 index not found\<close> each, and make no call at all besides a log line: the
  number of executor invocations is 0, not 1, and segment 1 stays unavailable.
\<close>

theorem single_flight_counterexample:
  "ready ex_ready
   \<and> segments ex_ready 1 = Some False
   \<and> map (ServeMedia ex_env) [ex_ready, ex_ready, ex_ready] =
       [Respond [LogWarn ''media index not found''] (HttpError ''404 index not found'' 404),
        Respond [LogWarn ''media index not found''] (HttpError ''404 index not found'' 404),
        Respond [LogWarn ''media index not found''] (HttpError ''404 index not found'' 404)]
   \<and> length (filter is_call (concat (map (\<lambda>h. fst (resume h Timeout ex_ready))
         (map (ServeMedia ex_env) [ex_ready, ex_ready, ex_ready])))) = 0"
proof -
  have "segments ex_ready 0 = None"
    using reachable_ex_ready by (intro manager_inv_no_key reachable_inv)
  then have "ServeMedia ex_env ex_ready =
      Respond [LogWarn ''media index not found''] (HttpError ''404 index not found'' 404)"
    by (rule ServeMedia_no_key)
  then show ?thesis
    using ex_ready_fields(1) ex_ready_segment_1 by simp
qed

text \<open>
  C10, amended: \<open>N\<close> requests to the segment handler, each finding the manager in
  some state of an execution, also in the middle of \<open>initialize\<close>, cause no invocation
  of a transcode executor (the handler makes no call, it writes one log line per request),
  all \<open>N\<close> get the same response, \<open>404 index not found\<close>, and no segment is available
  in any of these states.
\<close>

theorem segment_requests_never_transcode:
  assumes "\<forall>m \<in> set ms. reachable m"
  shows "map (ServeMedia env) ms =
           replicate (length ms)
             (Respond [LogWarn ''media index not found''] (HttpError ''404 index not found'' 404))
         \<and> filter is_call (concat (map (\<lambda>m. fst (resume (ServeMedia env m) w m')) ms)) = []
         \<and> (\<forall>m \<in> set ms. \<forall>k. segments m k \<noteq> Some True)"
proof -
  have each: "ServeMedia env m =
      Respond [LogWarn ''media index not found''] (HttpError ''404 index not found'' 404)"
    if "m \<in> set ms" for m
    using that assms by (intro ServeMedia_no_key manager_inv_no_key reachable_inv) blast
  have "map (ServeMedia env) ms =
           replicate (length ms)
             (Respond [LogWarn ''media index not found''] (HttpError ''404 index not found'' 404))"
    using each by (simp add: map_replicate_const [symmetric])
  moreover have "filter is_call (concat (map (\<lambda>m. fst (resume (ServeMedia env m) w m')) ms)) = []"
    using each by (auto simp: filter_empty_conv)
  moreover have "\<forall>m \<in> set ms. \<forall>k. segments m k \<noteq> Some True"
    using assms manager_inv_never_available reachable_inv by blast
  ultimately show ?thesis by blast
qed

theorem segment_requests_never_transcode_witness:
  "reachable ex_started \<and> reachable ex_assigning \<and> reachable ex_ready \<and> reachable ex_stopped
   \<and> map (ServeMedia ex_env) [ex_started, ex_assigning, ex_ready, ex_stopped] =
       replicate 4 (Respond [LogWarn ''media index not found''] (HttpError ''404 index not found'' 404))
   \<and> filter is_call (concat (map (\<lambda>m. fst (resume (ServeMedia ex_env m) Timeout ex_ready))
        [ex_started, ex_assigning, ex_ready, ex_stopped])) = []
   \<and> segments ex_ready 1 \<noteq> Some True"
proof -
  have r: "\<forall>m \<in> set [ex_started, ex_assigning, ex_ready, ex_stopped]. reachable m"
    using reachable_ex_started reachable_ex_assigning reachable_ex_ready reachable_ex_stopped by simp
  have l: "length [ex_started, ex_assigning, ex_ready, ex_stopped] = 4"
    by simp
  show ?thesis
    using reachable_ex_started reachable_ex_assigning reachable_ex_ready reachable_ex_stopped
      segment_requests_never_transcode [OF r, of ex_env Timeout ex_ready]
    unfolding l by simp
qed

section \<open>The durations that a playlist declares\<close>

subsection \<open>Decimal numerals, written and read\<close>

lemma digit_char_cases:
  assumes "0 \<le> d" and "d < 10"
  shows "digit_char d \<in> set ''0123456789'' \<and> digit_val (digit_char d) = Some d"
proof -
  have "d \<in> {0, 1, 2, 3, 4, 5, 6, 7, 8, 9}"
    using assms by (simp; presburger)
  then show ?thesis
    by (auto simp: digit_char_def digit_val_def)
qed

lemma digit_char_neg:
  "d < 0 \<Longrightarrow> digit_char d = CHR ''0''"
  by (simp add: digit_char_def)

lemma itoa_nonempty: "itoa n \<noteq> []"
  by (subst itoa.simps) simp

lemma itoa_digits: "set (itoa n) \<subseteq> set ''0123456789''"
proof (induction n rule: itoa.induct)
  case (1 n)
  show ?case
  proof (cases "n < 10")
    case True
    have "digit_char n \<in> set ''0123456789''"
    proof (cases "0 \<le> n")
      case True
      with \<open>n < 10\<close> show ?thesis using digit_char_cases by blast
    next
      case False
      then show ?thesis by (simp add: digit_char_neg)
    qed
    then show ?thesis
      using True by (subst itoa.simps) simp
  next
    case False
    have "digit_char (n mod 10) \<in> set ''0123456789''"
      using digit_char_cases [of "n mod 10"] by simp
    then show ?thesis
      using False 1 by (subst itoa.simps) simp
  qed
qed

lemma digits_value_append:
  "digits_value (s @ t) acc =
     (case digits_value s acc of None \<Rightarrow> None | Some a \<Rightarrow> digits_value t a)"
  by (induction s arbitrary: acc) (auto split: option.splits)

lemma digits_value_itoa: "0 \<le> n \<Longrightarrow> digits_value (itoa n) 0 = Some n"
proof (induction n rule: itoa.induct)
  case (1 n)
  show ?case
  proof (cases "n < 10")
    case True
    then show ?thesis
      using 1(2) digit_char_cases [of n] by (subst itoa.simps) simp
  next
    case False
    have "digits_value (itoa (n div 10)) 0 = Some (n div 10)"
      using 1 False by simp
    moreover have "digit_val (digit_char (n mod 10)) = Some (n mod 10)"
      using digit_char_cases [of "n mod 10"] by simp
    ultimately show ?thesis
      using False by (subst itoa.simps) (simp add: digits_value_append)
  qed
qed

lemma digits_value_zeros: "digits_value (replicate k (CHR ''0'') @ s) 0 = digits_value s 0"
  by (induction k) (simp_all add: digit_val_def)

lemma length_itoa: "0 \<le> k \<Longrightarrow> k < 10 ^ p \<Longrightarrow> 0 < p \<Longrightarrow> length (itoa k) \<le> p"
proof (induction k arbitrary: p rule: itoa.induct)
  case (1 n)
  show ?case
  proof (cases "n < 10")
    case True
    then show ?thesis
      using 1(4) by (subst itoa.simps) simp
  next
    case False
    then have "1 < p"
      using 1(3) 1(4) by (cases "p = 1") auto
    then obtain p' where p: "p = Suc p'" "0 < p'"
      by (cases p) auto
    have "n div 10 < 10 ^ p'"
      using 1(3) p by simp
    then have "length (itoa (n div 10)) \<le> p'"
      using 1(1) [OF False _ _ p(2)] 1(2) by simp
    then show ?thesis
      using False p by (subst itoa.simps) simp
  qed
qed


lemma parse_digits_itoa: "0 \<le> n \<Longrightarrow> parse_digits (itoa n) = Some n"
  by (simp add: parse_digits_def itoa_nonempty digits_value_itoa)

lemma zero_pad_length:
  assumes "0 \<le> k" and "k < 10 ^ p" and "0 < p"
  shows "length (zero_pad p (itoa k)) = p"
  using length_itoa [OF assms] by (simp add: zero_pad_def)

lemma parse_digits_zero_pad:
  assumes "0 \<le> k"
  shows "parse_digits (zero_pad p (itoa k)) = Some k"
  using assms by (simp add: parse_digits_def zero_pad_def itoa_nonempty digits_value_zeros digits_value_itoa)

lemma itoa_no_char:
  assumes "c \<notin> set ''0123456789''"
  shows "c \<notin> set (itoa n)"
  using assms itoa_digits [of n] by blast

lemma zero_pad_no_char:
  assumes "c \<notin> set ''0123456789''"
  shows "c \<notin> set (zero_pad p (itoa n))"
  using itoa_no_char [OF assms, of n] assms by (auto simp: zero_pad_def)

lemma takeWhile_until:
  "c \<notin> set xs \<Longrightarrow> takeWhile (\<lambda>x. x \<noteq> c) (xs @ c # ys) = xs"
  by (induction xs) auto

lemma dropWhile_until:
  "c \<notin> set xs \<Longrightarrow> dropWhile (\<lambda>x. x \<noteq> c) (xs @ c # ys) = c # ys"
  by (induction xs) auto

lemma parse_unsigned_fmt_fixed:
  assumes "0 \<le> n" and "0 < p"
  shows "parse_unsigned (fmt_fixed p n) = Some (of_int n / 10 ^ p)"
proof -
  define ip where "ip = itoa (n div 10 ^ p)"
  define fp where "fp = zero_pad p (itoa (n mod 10 ^ p))"
  have fmt: "fmt_fixed p n = ip @ CHR ''.'' # fp"
    using assms(2) by (simp add: fmt_fixed_def ip_def fp_def)
  have nodot: "CHR ''.'' \<notin> set ip"
    unfolding ip_def by (rule itoa_no_char) simp
  have tw: "takeWhile (\<lambda>c. c \<noteq> CHR ''.'') (ip @ CHR ''.'' # fp) = ip"
    using nodot by (rule takeWhile_until)
  have dw: "dropWhile (\<lambda>c. c \<noteq> CHR ''.'') (ip @ CHR ''.'' # fp) = CHR ''.'' # fp"
    using nodot by (rule dropWhile_until)
  have a: "parse_digits ip = Some (n div 10 ^ p)"
    unfolding ip_def using assms(1) by (intro parse_digits_itoa) (simp add: pos_imp_zdiv_nonneg_iff)
  have b: "parse_digits fp = Some (n mod 10 ^ p)"
    unfolding fp_def by (intro parse_digits_zero_pad) simp
  have l: "length fp = p"
    unfolding fp_def using assms(2) by (intro zero_pad_length) simp_all
  have "(of_int (n div 10 ^ p) :: rat) + of_int (n mod 10 ^ p) / 10 ^ p = of_int n / 10 ^ p"
  proof -
    have "n = (n div 10 ^ p) * 10 ^ p + n mod 10 ^ p"
      by (rule div_mult_mod_eq [symmetric])
    then have "(of_int n :: rat) = of_int (n div 10 ^ p) * 10 ^ p + of_int (n mod 10 ^ p)"
      by (metis of_int_add of_int_mult of_int_numeral of_int_power)
    then show ?thesis
      by (simp add: field_simps)
  qed
  then show ?thesis
    by (simp add: parse_unsigned_def fmt tw dw a b l Let_def)
qed

subsection \<open>Rounding to decimals\<close>

lemma round_half_even_error: "\<bar>of_int (round_half_even x) - x\<bar> \<le> 1 / 2"
proof -
  have "of_int \<lfloor>x\<rfloor> \<le> x" "x < of_int \<lfloor>x\<rfloor> + 1"
    by linarith+
  then show ?thesis
    by (auto simp: round_half_even_def Let_def)
qed

lemma round_half_even_nonneg: "0 \<le> x \<Longrightarrow> 0 \<le> round_half_even x"
  by (auto simp: round_half_even_def Let_def)


subsection \<open>Reading what \<open>%.3f\<close> wrote\<close>

lemma fmt_fixed_hd_digit:
  "\<exists>c r. fmt_fixed p n = c # r \<and> c \<in> set ''0123456789''"
proof -
  obtain c r where cr: "itoa (n div 10 ^ p) = c # r"
    using itoa_nonempty [of "n div 10 ^ p"] by (cases "itoa (n div 10 ^ p)") auto
  then have "c \<in> set ''0123456789''"
    using itoa_digits [of "n div 10 ^ p"] by auto
  then show ?thesis
    using cr by (simp add: fmt_fixed_def)
qed

lemma parse_decimal_unsigned:
  assumes "0 \<le> n" and "0 < p"
  shows "parse_decimal (fmt_fixed p n) = Some (of_int n / 10 ^ p)"
proof -
  obtain c r where cr: "fmt_fixed p n = c # r" "c \<in> set ''0123456789''"
    using fmt_fixed_hd_digit by blast
  then have "c \<noteq> CHR ''-''"
    by auto
  then have "parse_decimal (fmt_fixed p n) = parse_unsigned (fmt_fixed p n)"
    using cr(1) by (simp add: parse_decimal_def)
  then show ?thesis
    using parse_unsigned_fmt_fixed [OF assms] by simp
qed

lemma parse_decimal_signed:
  assumes "0 \<le> n" and "0 < p"
  shows "parse_decimal (''-'' @ fmt_fixed p n) = Some (- (of_int n / 10 ^ p))"
  using parse_unsigned_fmt_fixed [OF assms] by (simp add: parse_decimal_def)

lemma parse_decimal_fmt_f:
  assumes "0 < p"
  shows "parse_decimal (fmt_f p d) = rounded_to p d"
proof (cases d)
  case (Fin q)
  have n: "0 \<le> round_half_even (\<bar>q\<bar> * 10 ^ p)"
    by (rule round_half_even_nonneg) simp
  show ?thesis
  proof (cases "q < 0")
    case True
    then show ?thesis
      using parse_decimal_signed [OF n assms] by (simp add: Fin)
  next
    case False
    then show ?thesis
      using parse_decimal_unsigned [OF n assms] by (simp add: Fin)
  qed
next
  case NegZero
  show ?thesis
    using parse_decimal_signed [of 0 p] assms by (simp add: NegZero)
next
  case PosInf
  show ?thesis
    unfolding PosInf by (simp add: parse_decimal_def parse_unsigned_def parse_digits_def digit_val_def)
next
  case NegInf
  show ?thesis
    unfolding NegInf by (simp add: parse_decimal_def parse_unsigned_def parse_digits_def digit_val_def)
next
  case NaN
  show ?thesis
    unfolding NaN by (simp add: parse_decimal_def parse_unsigned_def parse_digits_def digit_val_def)
qed

lemma fmt_fixed_no_char:
  assumes "c \<notin> set ''0123456789.''"
  shows "c \<notin> set (fmt_fixed p n)"
proof -
  have d: "c \<notin> set ''0123456789''"
    using assms by auto
  show ?thesis
    using itoa_no_char [OF d] zero_pad_no_char [OF d] assms
    by (auto simp: fmt_fixed_def)
qed

lemma fmt_f_no_char:
  assumes "c \<notin> set ''0123456789.-+InfNa''"
  shows "c \<notin> set (fmt_f p d)"
proof -
  have "c \<notin> set ''0123456789.''"
    using assms by auto
  then have "c \<notin> set (fmt_fixed p n)" for n
    by (rule fmt_fixed_no_char)
  then show ?thesis
    using assms by (cases d) auto
qed

lemma declared_duration_extinf:
  "declared_duration (''#EXTINF:'' @ fmt_f 3 d @ '', no desc'') = rounded_to 3 d"
proof -
  have "CHR '','' \<notin> set (fmt_f 3 d)"
    by (rule fmt_f_no_char) simp
  then have "takeWhile (\<lambda>c. c \<noteq> CHR '','') (fmt_f 3 d @ CHR '','' # '' no desc'') = fmt_f 3 d"
    by (rule takeWhile_until)
  then show ?thesis
    by (simp add: declared_duration_def parse_decimal_fmt_f)
qed

lemma rounded_to_error:
  assumes "rounded_to p (Fin q) = Some r"
  shows "\<bar>r - q\<bar> \<le> 1 / (2 * 10 ^ p)"
proof -
  define n where "n = round_half_even (\<bar>q\<bar> * 10 ^ p)"
  have e: "\<bar>of_int n - \<bar>q\<bar> * 10 ^ p\<bar> \<le> 1 / 2"
    unfolding n_def by (rule round_half_even_error)
  have "\<bar>of_int n / 10 ^ p - \<bar>q\<bar>\<bar> = \<bar>of_int n - \<bar>q\<bar> * 10 ^ p\<bar> / 10 ^ p"
    by (simp add: field_simps abs_divide flip: abs_mult)
  also have "\<dots> \<le> (1 / 2) / 10 ^ p"
    using e by (intro divide_right_mono) simp_all
  finally have b: "\<bar>of_int n / 10 ^ p - \<bar>q\<bar>\<bar> \<le> 1 / (2 * 10 ^ p)"
    by simp
  have r: "r = (if q < 0 then - 1 else 1) * of_int n / 10 ^ p"
    using assms by (simp add: n_def)
  show ?thesis
  proof (cases "q < 0")
    case True
    then have "r - q = - (of_int n / 10 ^ p - \<bar>q\<bar>)"
      by (simp add: r)
    then show ?thesis
      using b by (simp only: abs_minus_cancel)
  next
    case False
    then have "r - q = of_int n / 10 ^ p - \<bar>q\<bar>"
      by (simp add: r)
    then show ?thesis
      using b by simp
  qed
qed


subsection \<open>The lines of the text\<close>

lemma split_on_none: "c \<notin> set x \<Longrightarrow> split_on c x = [x]"
  by (induction x) auto

lemma split_on_first: "c \<notin> set x \<Longrightarrow> split_on c (x @ c # rest) = x # split_on c rest"
  by (induction x) auto

lemma split_on_Join:
  assumes "ls \<noteq> []" and "\<forall>l \<in> set ls. c \<notin> set l"
  shows "split_on c (Join ls [c]) = ls"
  using assms
proof (induction ls "[c]" rule: Join.induct)
  case 1
  then show ?case by simp
next
  case (2 x)
  then show ?case by (simp add: split_on_none)
next
  case (3 x y ys)
  then show ?case by (simp add: split_on_first)
qed

lemma filter_pairs:
  assumes "\<And>i. P (e i)" and "\<And>i. \<not> P (u i)"
  shows "filter P (concat (map (\<lambda>i. [e i, u i]) js)) = map e js"
  using assms by (induction js) auto

lemma is_extinf_line: "is_extinf (''#EXTINF:'' @ rest)"
  by (simp add: is_extinf_def)

lemma not_extinf_uri:
  assumes "take 1 pre \<noteq> ''#''"
  shows "\<not> is_extinf (pre @ ''-'' @ rest)"
  using assms by (cases pre) (auto simp: is_extinf_def)

lemma not_extinf_target: "\<not> is_extinf (''#EXT-X-TARGETDURATION:'' @ rest)"
  by (simp add: is_extinf_def)

lemma playlist_lines_of_text:
  assumes "segmentSuffix m = ''-%05d.ts''"
    and "CHR 0x0A \<notin> set (SegmentPrefix (config m))"
  shows "split_on (CHR 0x0A) (getPlaylist m) = getPlaylist_lines m"
  unfolding getPlaylist_def
proof (rule split_on_Join)
  show "getPlaylist_lines m \<noteq> []"
    by (simp add: getPlaylist_lines_eq)
  have num: "CHR 0x0A \<notin> set (fmt_f p d)" for p d
    by (rule fmt_f_no_char) simp
  have pad: "CHR 0x0A \<notin> set (zero_pad 5 (itoa i))" for i
    by (rule zero_pad_no_char) simp
  have uri: "CHR 0x0A \<notin> set (getSegmentName m (int i))" for i
    using assms(2) pad by (simp add: getSegmentName_suffix [OF assms(1)])
  show "\<forall>l \<in> set (getPlaylist_lines m). CHR 0x0A \<notin> set l"
    using num uri by (auto simp: getPlaylist_lines_eq)
qed

lemma extinf_lines_of_playlist:
  assumes "segmentSuffix m = ''-%05d.ts''"
    and "take 1 (SegmentPrefix (config m)) \<noteq> ''#''"
  shows "filter is_extinf (getPlaylist_lines m) =
           map (\<lambda>i. ''#EXTINF:'' @ fmt_f 3 (fsub (segmentsTimes m ! i) (segmentsTimes m ! (i - 1)))
                      @ '', no desc'')
               [1..<length (segmentsTimes m)]"
proof -
  have uri: "\<not> is_extinf (getSegmentName m (int i))" for i
    unfolding getSegmentName_suffix [OF assms(1)] using assms(2) by (rule not_extinf_uri)
  have ext: "is_extinf (''#EXTINF:'' @ fmt_f 3 (fsub (segmentsTimes m ! i) (segmentsTimes m ! (i - 1)))
                      @ '', no desc'')" for i
    by (rule is_extinf_line)
  have "filter is_extinf (getPlaylist_lines m) =
          filter is_extinf (concat (map (\<lambda>i. [''#EXTINF:'' @ fmt_f 3 (fsub (segmentsTimes m ! i) (segmentsTimes m ! (i - 1)))
                      @ '', no desc'', getSegmentName m (int i)]) [1..<length (segmentsTimes m)]))"
    using not_extinf_target [of "fmt_f 2 (segmentDuration m)"]
    by (simp add: getPlaylist_lines_eq is_extinf_def)
  also have "\<dots> = map (\<lambda>i. ''#EXTINF:'' @ fmt_f 3 (fsub (segmentsTimes m ! i) (segmentsTimes m ! (i - 1)))
                      @ '', no desc'') [1..<length (segmentsTimes m)]"
    using ext uri by (rule filter_pairs)
  finally show ?thesis .
qed

lemma extinf_durations_getPlaylist:
  assumes "segmentSuffix m = ''-%05d.ts''"
    and "CHR 0x0A \<notin> set (SegmentPrefix (config m))"
    and "take 1 (SegmentPrefix (config m)) \<noteq> ''#''"
  shows "extinf_durations (getPlaylist m) =
           map (\<lambda>i. rounded_to 3 (fsub (segmentsTimes m ! i) (segmentsTimes m ! (i - 1))))
               [1..<length (segmentsTimes m)]"
  unfolding extinf_durations_def playlist_lines_of_text [OF assms(1,2)]
    extinf_lines_of_playlist [OF assms(1,3)] map_map o_def declared_duration_extinf
  by (rule refl)


subsection \<open>Sums\<close>

lemma sum_list_telescope:
  fixes qs :: "rat list"
  shows "0 < n \<Longrightarrow> sum_list (map (\<lambda>i. qs ! i - qs ! (i - 1)) [1..<n]) = qs ! (n - 1) - qs ! 0"
proof (induction n)
  case 0
  then show ?case by simp
next
  case (Suc n)
  show ?case
  proof (cases "n = 0")
    case True
    then show ?thesis by simp
  next
    case False
    then show ?thesis using Suc by simp
  qed
qed

lemma sum_list_close:
  fixes f g :: "nat \<Rightarrow> rat"
  assumes "\<forall>x \<in> set js. \<bar>f x - g x\<bar> \<le> c"
  shows "\<bar>sum_list (map f js) - sum_list (map g js)\<bar> \<le> of_nat (length js) * c"
  using assms
proof (induction js)
  case Nil
  then show ?case by simp
next
  case (Cons j js)
  have "\<bar>f j - g j\<bar> \<le> c"
    using Cons(2) by simp
  moreover have "\<bar>sum_list (map f js) - sum_list (map g js)\<bar> \<le> of_nat (length js) * c"
    using Cons by simp
  ultimately show ?case
    by (simp add: algebra_simps)
qed

lemma initialize_playlist:
  assumes "initialize m = Returned m'"
    and "metadata m = Some md" and "Video md = Some v" and "PktPtsTime v = Some ts"
  shows "playlist m' = getPlaylist (m\<lparr>segmentsTimes := ts\<rparr>)"
  using assms by (auto simp: initialize_def Let_def)

subsection \<open>The example\<close>

lemma ex_rounded: "rounded_to 3 (Fin (33 / 32)) = Some (1031 / 1000)"
  by code_simp

lemma ex_loaded_fields:
  "metadata ex_loaded = Some (ex_metadata (map Fin ex_times))"
  "segmentSuffix ex_loaded = ''-%05d.ts''"
  "CHR 0x0A \<notin> set (SegmentPrefix (config ex_loaded))"
  "take 1 (SegmentPrefix (config ex_loaded)) \<noteq> ''#''"
  by (simp_all add: ex_loaded_def New_def ex_config_def)

lemma ex_metadata_fields:
  "Video (ex_metadata ts) = Some \<lparr>PktPtsTime = Some ts\<rparr>"
  "PktPtsTime \<lparr>PktPtsTime = Some ts\<rparr> = Some ts"
  by (simp_all add: ex_metadata_def)

lemma ex_rounded_differences:
  "map (\<lambda>i. rounded_to 3 (fsub (map Fin ex_times ! i) (map Fin ex_times ! (i - 1))))
       [1..<length (map Fin ex_times)]
   = [Some (1031 / 1000), Some (1031 / 1000)]"
proof -
  have l: "length (map Fin ex_times) = 3"
    by (simp add: ex_times_def)
  show ?thesis
    unfolding l upt_1_3
    by (simp add: ex_times_def ex_diff_1 ex_diff_2 ex_rounded del: fsub.simps rounded_to.simps)
qed

lemma ex_declared:
  "extinf_durations (playlist ex_initialized) = [Some (1031 / 1000), Some (1031 / 1000)]"
proof -
  have "playlist ex_initialized = getPlaylist (ex_loaded\<lparr>segmentsTimes := map Fin ex_times\<rparr>)"
    using ex_initialize ex_loaded_fields(1) ex_metadata_fields by (rule initialize_playlist)
  moreover have "extinf_durations (getPlaylist (ex_loaded\<lparr>segmentsTimes := map Fin ex_times\<rparr>)) =
      map (\<lambda>i. rounded_to 3 (fsub (map Fin ex_times ! i) (map Fin ex_times ! (i - 1))))
          [1..<length (map Fin ex_times)]"
    using extinf_durations_getPlaylist [of "ex_loaded\<lparr>segmentsTimes := map Fin ex_times\<rparr>"]
      ex_loaded_fields(2-4)
    by simp
  ultimately show ?thesis
    by (simp only: ex_rounded_differences)
qed

lemma ex_spec_durations: "spec_durations ex_times = [33 / 32, 33 / 32]"
proof -
  have l: "length ex_times = 3"
    by (simp add: ex_times_def)
  show ?thesis
    unfolding spec_durations_def l upt_1_3 by (simp add: ex_times_def)
qed

text \<open>
  C1, as the specification words it, fails. The keyframe timestamps 0, 1.03125 and 2.0625
  are strictly increasing from 0, and both float64 differences are exactly 1.03125; the
  playlist generated by the initialization declares 1.031 twice, which is not the list of
  the differences, and the declared durations sum to 2.062, not to 2.0625.
\<close>

theorem declared_durations_counterexample:
  "sorted_wrt (<) ex_times \<and> hd ex_times = 0 \<and> last ex_times = 33 / 16
   \<and> metadata ex_loaded = Some (ex_metadata (map Fin ex_times))
   \<and> initialize ex_loaded = Returned ex_initialized
   \<and> fsub (Fin (33 / 32)) (Fin 0) = Fin (33 / 32)
   \<and> fsub (Fin (33 / 16)) (Fin (33 / 32)) = Fin (33 / 32)
   \<and> spec_durations ex_times = [33 / 32, 33 / 32]
   \<and> extinf_durations (playlist ex_initialized) = [Some (1031 / 1000), Some (1031 / 1000)]
   \<and> extinf_durations (playlist ex_initialized) \<noteq> map Some (spec_durations ex_times)
   \<and> declared_sum (extinf_durations (playlist ex_initialized)) = 1031 / 500
   \<and> declared_sum (extinf_durations (playlist ex_initialized)) \<noteq> last ex_times"
proof -
  have "sorted_wrt (<) ex_times" "hd ex_times = 0" "last ex_times = 33 / 16"
    by (simp_all add: ex_times_def)
  moreover have "extinf_durations (playlist ex_initialized) \<noteq> map Some (spec_durations ex_times)"
    unfolding ex_declared ex_spec_durations by simp
  moreover have "declared_sum (extinf_durations (playlist ex_initialized)) = 1031 / 500"
    unfolding ex_declared by (simp add: declared_sum_def)
  moreover have "declared_sum (extinf_durations (playlist ex_initialized)) \<noteq> last ex_times"
    unfolding ex_declared by (simp add: declared_sum_def ex_times_def)
  ultimately show ?thesis
    using ex_loaded_fields(1) ex_initialize ex_diff_1 ex_diff_2 ex_spec_durations ex_declared
    by blast
qed

text \<open>
  C1, amended: let the metadata of a manager hold the keyframe timestamps \<open>ts\<close>, let
  its suffix be the one that \<open>New\<close> installs and its prefix have no newline and not
  begin with \<open>#\<close>, and let \<open>initialize\<close> return. Then the playlist text has exactly
  \<open>len(ts) - 1\<close> \<open>#EXTINF\<close> entries, and the \<open>i\<close>-th declares the float64
  difference \<open>ts[i] - ts[i-1]\<close> rounded to three decimals, ties to even: a finite
  difference is declared within 0.0005 of its value. When the timestamps are finite and
  the float64 subtractions exact, the declared durations sum to the last timestamp minus
  the first within \<open>(len(ts) - 1) * 0.0005\<close>.
\<close>

theorem extinf_durations_rounded:
  assumes "initialize m = Returned m'"
    and "metadata m = Some md" and "Video md = Some v" and "PktPtsTime v = Some ts"
    and "segmentSuffix m = ''-%05d.ts''"
    and "CHR 0x0A \<notin> set (SegmentPrefix (config m))"
    and "take 1 (SegmentPrefix (config m)) \<noteq> ''#''"
  shows "length (extinf_durations (playlist m')) = length ts - 1
         \<and> extinf_durations (playlist m') =
             map (\<lambda>i. rounded_to 3 (fsub (ts ! i) (ts ! (i - 1)))) [1..<length ts]
         \<and> (\<forall>i q. 1 \<le> i \<and> i < length ts \<and> fsub (ts ! i) (ts ! (i - 1)) = Fin q
               \<longrightarrow> (\<exists>r. extinf_durations (playlist m') ! (i - 1) = Some r \<and> \<bar>r - q\<bar> \<le> 1 / 2000))
         \<and> (\<forall>qs. ts = map Fin qs \<and> qs \<noteq> []
                  \<and> (\<forall>i. 1 \<le> i \<and> i < length qs
                        \<longrightarrow> fsub (ts ! i) (ts ! (i - 1)) = Fin (qs ! i - qs ! (i - 1)))
               \<longrightarrow> \<bar>declared_sum (extinf_durations (playlist m')) - (last qs - hd qs)\<bar>
                     \<le> of_nat (length qs - 1) / 2000)"
proof -
  define m1 where "m1 = m\<lparr>segmentsTimes := ts\<rparr>"
  have pl: "playlist m' = getPlaylist m1"
    unfolding m1_def using assms(1-4) by (rule initialize_playlist)
  have eq: "extinf_durations (playlist m') =
              map (\<lambda>i. rounded_to 3 (fsub (ts ! i) (ts ! (i - 1)))) [1..<length ts]"
    unfolding pl using extinf_durations_getPlaylist [of m1] assms(5-7) by (simp add: m1_def)
  have len: "length (extinf_durations (playlist m')) = length ts - 1"
    by (simp add: eq)
  have each: "\<exists>r. extinf_durations (playlist m') ! (i - 1) = Some r \<and> \<bar>r - q\<bar> \<le> 1 / 2000"
    if "1 \<le> i \<and> i < length ts \<and> fsub (ts ! i) (ts ! (i - 1)) = Fin q" for i q
  proof -
    have i: "i - 1 < length [1..<length ts]" "[1..<length ts] ! (i - 1) = i"
      using that by auto
    have "extinf_durations (playlist m') ! (i - 1) = rounded_to 3 (fsub (ts ! i) (ts ! (i - 1)))"
      unfolding eq nth_map [OF i(1)] i(2) by (rule refl)
    also have "\<dots> = rounded_to 3 (Fin q)"
      using that by (simp only:)
    finally have e: "extinf_durations (playlist m') ! (i - 1) = rounded_to 3 (Fin q)" .
    obtain r where r: "rounded_to 3 (Fin q) = Some r"
      using rounded_to.simps(1) by blast
    have "\<bar>r - q\<bar> \<le> 1 / (2 * 10 ^ 3)"
      using r by (rule rounded_to_error)
    then have "\<bar>r - q\<bar> \<le> 1 / 2000"
      by simp
    then show ?thesis
      unfolding e r by blast
  qed
  have total: "\<bar>declared_sum (extinf_durations (playlist m')) - (last qs - hd qs)\<bar>
                 \<le> of_nat (length qs - 1) / 2000"
    if h: "ts = map Fin qs \<and> qs \<noteq> []
           \<and> (\<forall>i. 1 \<le> i \<and> i < length qs \<longrightarrow> fsub (ts ! i) (ts ! (i - 1)) = Fin (qs ! i - qs ! (i - 1)))"
    for qs
  proof -
    define R :: "rat \<Rightarrow> rat" where "R = (\<lambda>x. (if x < 0 then - 1 else 1) * of_int (round_half_even (\<bar>x\<bar> * 10 ^ 3)) / 10 ^ 3)"
    define d :: "nat \<Rightarrow> rat" where "d = (\<lambda>i. qs ! i - qs ! (i - 1))"
    have n: "length ts = length qs" "0 < length qs"
      using h by auto
    have R: "rounded_to 3 (Fin x) = Some (R x)" for x
      by (simp add: R_def)
    from h have exact: "\<forall>i. 1 \<le> i \<and> i < length qs
        \<longrightarrow> fsub (ts ! i) (ts ! (i - 1)) = Fin (qs ! i - qs ! (i - 1))"
      by blast
    have "rounded_to 3 (fsub (ts ! i) (ts ! (i - 1))) = Some (R (d i))"
      if "i \<in> set [1..<length qs]" for i
    proof -
      have "fsub (ts ! i) (ts ! (i - 1)) = Fin (d i)"
        unfolding d_def using exact that by simp
      then show ?thesis
        by (simp only: R)
    qed
    then have "extinf_durations (playlist m') = map (\<lambda>i. Some (R (d i))) [1..<length qs]"
      unfolding eq n(1) by (intro map_cong) simp_all
    then have s: "declared_sum (extinf_durations (playlist m')) = sum_list (map (\<lambda>i. R (d i)) [1..<length qs])"
      by (simp add: declared_sum_def o_def)
    have "sum_list (map d [1..<length qs]) = qs ! (length qs - 1) - qs ! 0"
      unfolding d_def using n(2) by (rule sum_list_telescope)
    then have t: "sum_list (map d [1..<length qs]) = last qs - hd qs"
      using n(2) by (simp add: last_conv_nth hd_conv_nth)
    have "\<forall>i \<in> set [1..<length qs]. \<bar>R (d i) - d i\<bar> \<le> 1 / 2000"
      using rounded_to_error [OF R, of "d i" for i] by simp
    then have "\<bar>sum_list (map (\<lambda>i. R (d i)) [1..<length qs]) - sum_list (map d [1..<length qs])\<bar>
                 \<le> of_nat (length [1..<length qs]) * (1 / 2000)"
      by (rule sum_list_close)
    then show ?thesis
      unfolding s t by simp
  qed
  show ?thesis
    using len eq each total by blast
qed

lemma ex_exact_differences:
  "\<forall>i. 1 \<le> i \<and> i < length ex_times
     \<longrightarrow> fsub (map Fin ex_times ! i) (map Fin ex_times ! (i - 1)) = Fin (ex_times ! i - ex_times ! (i - 1))"
proof (intro allI impI)
  fix i :: nat
  assume "1 \<le> i \<and> i < length ex_times"
  then have "i = 1 \<or> i = 2"
    by (auto simp: ex_times_def)
  then show "fsub (map Fin ex_times ! i) (map Fin ex_times ! (i - 1)) = Fin (ex_times ! i - ex_times ! (i - 1))"
    using ex_diff_1 ex_diff_2 by (auto simp: ex_times_def simp del: fsub.simps)
qed

theorem extinf_durations_rounded_witness:
  "initialize ex_loaded = Returned ex_initialized
   \<and> metadata ex_loaded = Some (ex_metadata (map Fin ex_times))
   \<and> Video (ex_metadata (map Fin ex_times)) = Some \<lparr>PktPtsTime = Some (map Fin ex_times)\<rparr>
   \<and> segmentSuffix ex_loaded = ''-%05d.ts''
   \<and> CHR 0x0A \<notin> set (SegmentPrefix (config ex_loaded))
   \<and> take 1 (SegmentPrefix (config ex_loaded)) \<noteq> ''#''
   \<and> length (extinf_durations (playlist ex_initialized)) = length (map Fin ex_times) - 1
   \<and> length (map Fin ex_times) = 3
   \<and> extinf_durations (playlist ex_initialized) = [Some (1031 / 1000), Some (1031 / 1000)]
   \<and> fsub (map Fin ex_times ! 1) (map Fin ex_times ! (1 - 1)) = Fin (33 / 32)
   \<and> (\<exists>r. extinf_durations (playlist ex_initialized) ! (1 - 1) = Some r \<and> \<bar>r - 33 / 32\<bar> \<le> 1 / 2000)
   \<and> \<bar>declared_sum (extinf_durations (playlist ex_initialized)) - (last ex_times - hd ex_times)\<bar>
       \<le> of_nat (length ex_times - 1) / 2000"
proof -
  note inst = extinf_durations_rounded [OF ex_initialize ex_loaded_fields(1) ex_metadata_fields
      ex_loaded_fields(2-4)]
  have len: "length (extinf_durations (playlist ex_initialized)) = length (map Fin ex_times) - 1"
    using inst by (rule conjunct1)
  have "extinf_durations (playlist ex_initialized) =
      map (\<lambda>i. rounded_to 3 (fsub (map Fin ex_times ! i) (map Fin ex_times ! (i - 1))))
          [1..<length (map Fin ex_times)]"
    using inst by blast
  then have eq: "extinf_durations (playlist ex_initialized) = [Some (1031 / 1000), Some (1031 / 1000)]"
    by (simp only: ex_rounded_differences)
  have l: "length (map Fin ex_times) = 3"
    by (simp add: ex_times_def)
  have d: "fsub (map Fin ex_times ! 1) (map Fin ex_times ! (1 - 1)) = Fin (33 / 32)"
    using ex_diff_1 by (simp add: ex_times_def del: fsub.simps)
  have i1: "1 \<le> (1::nat) \<and> 1 < length (map Fin ex_times)
            \<and> fsub (map Fin ex_times ! 1) (map Fin ex_times ! (1 - 1)) = Fin (33 / 32)"
    using d l by simp
  have e: "\<exists>r. extinf_durations (playlist ex_initialized) ! (1 - 1) = Some r \<and> \<bar>r - 33 / 32\<bar> \<le> 1 / 2000"
    using inst [THEN conjunct2, THEN conjunct2, THEN conjunct1, rule_format, OF i1] .
  have ne: "ex_times \<noteq> []"
    by (simp add: ex_times_def)
  have t: "\<bar>declared_sum (extinf_durations (playlist ex_initialized)) - (last ex_times - hd ex_times)\<bar>
       \<le> of_nat (length ex_times - 1) / 2000"
    using inst [THEN conjunct2, THEN conjunct2, THEN conjunct2, rule_format,
        OF conjI [OF refl conjI [OF ne ex_exact_differences]]] .
  show ?thesis
    using ex_initialize ex_loaded_fields ex_metadata_fields(1) len l eq d e t by blast
qed

section \<open>The rounding of float64\<close>

text \<open>
  The model of binary64 rounding does what it is meant to: \<open>ilog2\<close> is the binary
  exponent, a finite result of \<open>round64\<close> differs from the exact value by at most half
  a unit in the last place, and in the normal range by at most \<open>2^-53\<close> of its
  magnitude.
\<close>

lemma pow2_pos: "0 < pow2 e"
  by (simp add: pow2_def)

lemma pow2_add: "pow2 (a + b) = pow2 a * pow2 b"
proof -
  have p: "pow2 e = 2 powi e" for e
    by (simp add: pow2_def power_int_def field_simps)
  show ?thesis
    unfolding p by (simp add: power_int_add)
qed

lemma pow2_nat: "pow2 (int n) = 2 ^ n"
  by (simp add: pow2_def)

lemma bit_length_nonneg: "0 \<le> bit_length n"
proof (induction n rule: bit_length.induct)
  case (1 n)
  then show ?case by (subst bit_length.simps) simp
qed

lemma bit_length_bounds:
  "0 < n \<Longrightarrow> 2 ^ nat (bit_length n - 1) \<le> n \<and> n < 2 ^ nat (bit_length n)"
proof (induction n rule: bit_length.induct)
  case (1 n)
  show ?case
  proof (cases "n = 1")
    case True
    have "bit_length 0 = 0"
      by (subst bit_length.simps) simp
    then have "bit_length 1 = 1"
      by (subst bit_length.simps) simp
    then show ?thesis using True by simp
  next
    case False
    then have h: "0 < n div 2"
      using 1(2) by simp
    have bl: "bit_length n = bit_length (n div 2) + 1"
      using 1(2) by (subst bit_length.simps) simp
    have ih: "2 ^ nat (bit_length (n div 2) - 1) \<le> n div 2" "n div 2 < 2 ^ nat (bit_length (n div 2))"
      using 1(1) h 1(2) by simp_all
    have pos: "0 < bit_length (n div 2)"
      using h by (subst bit_length.simps) (simp add: bit_length_nonneg add_nonneg_pos)
    have e1: "nat (bit_length n - 1) = Suc (nat (bit_length (n div 2) - 1))"
      using pos by (simp add: bl nat_diff_distrib Suc_nat_eq_nat_zadd1)
    have e2: "nat (bit_length n) = Suc (nat (bit_length (n div 2)))"
      using pos by (simp add: bl nat_add_distrib)
    have lo: "2 * (n div 2) \<le> n" and hi: "n < 2 * (n div 2) + 2"
      by presburger+
    have "2 ^ nat (bit_length n - 1) \<le> n"
      unfolding e1 using ih(1) lo by simp
    moreover have "n < 2 ^ nat (bit_length n)"
      unfolding e2 using ih(2) hi by simp
    ultimately show ?thesis by simp
  qed
qed


lemma pow2_of_bit_length:
  assumes "0 < n"
  shows "pow2 (bit_length n - 1) \<le> of_int n \<and> of_int n < pow2 (bit_length n)"
proof -
  have b: "2 ^ nat (bit_length n - 1) \<le> n" "n < 2 ^ nat (bit_length n)"
    using bit_length_bounds [OF assms] by simp_all
  have pos: "0 < bit_length n"
    using assms by (subst bit_length.simps) (simp add: bit_length_nonneg add_nonneg_pos)
  have "(2::rat) ^ nat (bit_length n - 1) \<le> of_int n"
    using b(1) by (metis of_int_le_iff of_int_numeral of_int_power)
  moreover have "of_int n < (2::rat) ^ nat (bit_length n)"
    using b(2) by (metis of_int_less_iff of_int_numeral of_int_power)
  ultimately show ?thesis
    using pos by (simp add: pow2_def)
qed

lemma ilog2_bounds:
  assumes "0 < q"
  shows "pow2 (ilog2 q) \<le> q \<and> q < pow2 (ilog2 q + 1)"
proof -
  obtain a b where ab: "quotient_of q = (a, b)"
    by (cases "quotient_of q") auto
  have b: "0 < b"
    using ab by (rule quotient_of_denom_pos)
  have q: "q = of_int a / of_int b"
    using ab by (rule quotient_of_div)
  have a: "0 < a"
    using assms b by (simp add: q zero_less_divide_iff)
  define k where "k = bit_length a - bit_length b"
  have ba: "pow2 (bit_length a - 1) \<le> of_int a" "of_int a < pow2 (bit_length a)"
    using pow2_of_bit_length [OF a] by simp_all
  have bb: "pow2 (bit_length b - 1) \<le> of_int b" "of_int b < pow2 (bit_length b)"
    using pow2_of_bit_length [OF b] by simp_all
  have rb: "(0::rat) < of_int b"
    using b by simp
  have up: "q < pow2 (k + 1)"
  proof -
    have "pow2 (k + 1) * pow2 (bit_length b - 1) = pow2 (bit_length a)"
      by (simp add: k_def flip: pow2_add)
    then have "of_int a < pow2 (k + 1) * pow2 (bit_length b - 1)"
      using ba(2) by simp
    also have "\<dots> \<le> pow2 (k + 1) * of_int b"
      using bb(1) pow2_pos [of "k + 1"] by (simp add: mult_left_mono)
    finally show ?thesis
      using rb by (simp add: q pos_divide_less_eq)
  qed
  have lo: "pow2 (k - 1) \<le> q"
  proof -
    have "pow2 (k - 1) * pow2 (bit_length b) = pow2 (bit_length a - 1)"
      by (simp add: k_def flip: pow2_add)
    moreover have "pow2 (k - 1) * of_int b \<le> pow2 (k - 1) * pow2 (bit_length b)"
      using bb(2) pow2_pos [of "k - 1"] by (simp add: mult_left_mono)
    ultimately have "pow2 (k - 1) * of_int b \<le> of_int a"
      using ba(1) by simp
    then show ?thesis
      using rb by (simp add: q pos_le_divide_eq)
  qed
  have i: "ilog2 q = (if pow2 k \<le> q then k else k - 1)"
    by (simp add: ilog2_def ab k_def Let_def)
  show ?thesis
  proof (cases "pow2 k \<le> q")
    case True
    then show ?thesis using up by (simp add: i)
  next
    case False
    then show ?thesis using lo by (simp add: i)
  qed
qed

lemma round64_error:
  assumes "round64 q = Fin v"
  shows "\<bar>v - q\<bar> \<le> pow2 (max (ilog2 \<bar>q\<bar> - 52) (- 1074)) / 2"
proof (cases "q = 0")
  case True
  then show ?thesis
    using assms pow2_pos [of "max (ilog2 \<bar>q\<bar> - 52) (- 1074)"] by (simp add: round64_def)
next
  case False
  define e where "e = max (ilog2 \<bar>q\<bar> - 52) (- 1074)"
  define m where "m = round_half_even (\<bar>q\<bar> / pow2 e)"
  have p: "0 < pow2 e"
    by (rule pow2_pos)
  have err: "\<bar>of_int m - \<bar>q\<bar> / pow2 e\<bar> \<le> 1 / 2"
    unfolding m_def by (rule round_half_even_error)
  have "\<bar>of_int m * pow2 e - \<bar>q\<bar>\<bar> = \<bar>of_int m - \<bar>q\<bar> / pow2 e\<bar> * pow2 e"
    using p by (simp add: field_simps abs_mult flip: abs_mult_pos)
  also have "\<dots> \<le> (1 / 2) * pow2 e"
    using err p by (intro mult_right_mono) simp_all
  finally have b: "\<bar>of_int m * pow2 e - \<bar>q\<bar>\<bar> \<le> pow2 e / 2"
    by simp
  have r: "round64 q =
      (if pow2 1024 \<le> of_int m * pow2 e then (if q < 0 then NegInf else PosInf)
       else if m = 0 then (if q < 0 then NegZero else Fin 0)
       else Fin (if q < 0 then - (of_int m * pow2 e) else of_int m * pow2 e))"
    unfolding round64_def Let_def e_def m_def using False by simp
  have v: "v = (if q < 0 then - (of_int m * pow2 e) else of_int m * pow2 e) \<or> v = 0 \<and> m = 0"
    using assms unfolding r by (auto split: if_splits)
  show ?thesis
  proof (cases "q < 0")
    case True
    then have "\<bar>v - q\<bar> = \<bar>of_int m * pow2 e - \<bar>q\<bar>\<bar>"
      using v by auto
    then show ?thesis using b by (simp add: e_def)
  next
    case False
    then have "\<bar>v - q\<bar> = \<bar>of_int m * pow2 e - \<bar>q\<bar>\<bar>"
      using v by auto
    then show ?thesis using b by (simp add: e_def)
  qed
qed


lemma pow2_mono: "a \<le> b \<Longrightarrow> pow2 a \<le> pow2 b"
proof -
  assume "a \<le> b"
  have p: "pow2 e = 2 powi e" for e
    by (simp add: pow2_def power_int_def field_simps)
  show ?thesis
    unfolding p using \<open>a \<le> b\<close> by (intro power_int_increasing) simp_all
qed

lemma ilog2_lower:
  assumes "pow2 a \<le> q"
  shows "a \<le> ilog2 q"
proof (rule ccontr)
  assume "\<not> a \<le> ilog2 q"
  then have "ilog2 q + 1 \<le> a"
    by simp
  then have "pow2 (ilog2 q + 1) \<le> pow2 a"
    by (rule pow2_mono)
  moreover have "q < pow2 (ilog2 q + 1)"
    using ilog2_bounds [of q] pow2_pos [of a] assms by simp
  ultimately show False
    using assms by simp
qed

lemma round64_relative_error:
  assumes "round64 q = Fin v" and "pow2 (- 1022) \<le> \<bar>q\<bar>"
  shows "\<bar>v - q\<bar> \<le> \<bar>q\<bar> * pow2 (- 53)"
proof -
  have pos: "0 < \<bar>q\<bar>"
    using assms(2) pow2_pos [of "- 1022"] by linarith
  have "- 1022 \<le> ilog2 \<bar>q\<bar>"
    using assms(2) by (rule ilog2_lower)
  then have e: "max (ilog2 \<bar>q\<bar> - 52) (- 1074) = ilog2 \<bar>q\<bar> - 52"
    by simp
  have "\<bar>v - q\<bar> \<le> pow2 (ilog2 \<bar>q\<bar> - 52) / 2"
    using round64_error [OF assms(1)] unfolding e .
  also have "pow2 (ilog2 \<bar>q\<bar> - 52) / 2 = pow2 (ilog2 \<bar>q\<bar>) * pow2 (- 53)"
  proof -
    have "pow2 (ilog2 \<bar>q\<bar> - 52) = pow2 (ilog2 \<bar>q\<bar>) * pow2 (- 52)"
      using pow2_add [of "ilog2 \<bar>q\<bar>" "- 52"] by simp
    moreover have "pow2 (- 52) = pow2 (- 53) * 2"
      by (simp add: pow2_def)
    ultimately show ?thesis
      by simp
  qed
  also have "\<dots> \<le> \<bar>q\<bar> * pow2 (- 53)"
    using ilog2_bounds [OF pos] pow2_pos [of "- 53"] by (simp add: mult_right_mono)
  finally show ?thesis .
qed

end
